theory Spec2Isabelle
  imports Complex_Main "HOL-Library.Log_Nat"
begin

section \<open>JavaScript values\<close>

text \<open>
  The handlers of \<^verbatim>\<open>src/src/handlers.ts\<close> work on untyped JSON (\<^verbatim>\<open>any\<close>).
  A JavaScript number is an IEEE 754 double: \<open>NaN\<close>, one of the two infinities, the
  negative zero, or \<open>Fin q\<close> with \<open>q\<close> the rational value of a finite double (\<open>Fin 0\<close>
  is the positive zero). The arithmetic of the listing handler rounds every result to the
  nearest double, ties to even (\<open>round_double\<close> below).
\<close>

datatype jsnum = NaN | PInf | NInf | NegZero | Fin rat

datatype jsval =
    Undefined
  | Null
  | Bool bool
  | Num jsnum
  | Str string
  | Arr "jsval list"
  | Obj "(string \<times> jsval) list"

text \<open>An object is the list of its own properties, in insertion order.\<close>

type_synonym item = "(string \<times> jsval) list"

definition get_prop :: "item \<Rightarrow> string \<Rightarrow> jsval" where
  "get_prop it k = (case map_of it k of None \<Rightarrow> Undefined | Some v \<Rightarrow> v)"

text \<open>
  A property written in an object literal after a spread (\<^verbatim>\<open>{...reqBody, countryID: id}\<close>):
  the value of an existing property is replaced where the property stands, a new property
  goes to the end.
\<close>

fun set_prop :: "item \<Rightarrow> string \<Rightarrow> jsval \<Rightarrow> item" where
  "set_prop [] k v = [(k, v)]"
| "set_prop ((k', v') # fs) k v = (if k' = k then (k, v) # fs else (k', v') # set_prop fs k v)"

text \<open>Decimal digits of an array index, the property names a spread gives to elements.\<close>

function show_nat :: "nat \<Rightarrow> string" where
  "show_nat n =
     (if n < 10 then [char_of (48 + n)]
      else show_nat (n div 10) @ [char_of (48 + n mod 10)])"
  by pat_completeness auto
termination
  by (relation "measure (\<lambda>n. n)") auto

declare show_nat.simps [simp del]

text \<open>
  \<^verbatim>\<open>{...v}\<close>: the own enumerable properties of \<open>v\<close>. An object gives its properties, an
  array and a string give their elements under their indices, every other value gives none.
\<close>

fun spread :: "jsval \<Rightarrow> item" where
  "spread (Obj fs) = fs"
| "spread (Arr xs) = map (\<lambda>(i, v). (show_nat i, v)) (enumerate 0 xs)"
| "spread (Str s) = map (\<lambda>(i, c). (show_nat i, Str [c])) (enumerate 0 s)"
| "spread _ = []"

fun isArray :: "jsval \<Rightarrow> bool" where
  "isArray (Arr xs) = True"
| "isArray _ = False"

section \<open>The two DynamoDB tables\<close>

text \<open>
  A table is the list of its items. The primary key of an item is read from its
  attributes: \<^verbatim>\<open>countryID\<close> in \<^verbatim>\<open>CountriesTable\<close>, the pair (\<^verbatim>\<open>countryID\<close>,
  \<^verbatim>\<open>neighborId\<close>) in \<^verbatim>\<open>CountryNeighborsTable\<close>, as the \<^verbatim>\<open>Key\<close> of the source's
  \<^verbatim>\<open>get\<close> and \<^verbatim>\<open>delete\<close> calls names them. \<^verbatim>\<open>put\<close> replaces the item that has the
  key of the new one, or adds the new one. The calls to the document client are taken to
  succeed; a failure of the store is not a branch of the model.
\<close>

type_synonym table = "item list"

definition country_key :: "item \<Rightarrow> jsval" where
  "country_key it = get_prop it ''countryID''"

definition neighbor_key :: "item \<Rightarrow> jsval \<times> jsval" where
  "neighbor_key it = (get_prop it ''countryID'', get_prop it ''neighborId'')"

definition docClient_get :: "(item \<Rightarrow> 'k) \<Rightarrow> table \<Rightarrow> 'k \<Rightarrow> item option" where
  "docClient_get key t k = find (\<lambda>it. key it = k) t"

fun docClient_put :: "(item \<Rightarrow> 'k) \<Rightarrow> table \<Rightarrow> item \<Rightarrow> table" where
  "docClient_put key [] it = [it]"
| "docClient_put key (x # t) it =
     (if key x = key it then it # t else x # docClient_put key t it)"

definition docClient_delete :: "(item \<Rightarrow> 'k) \<Rightarrow> table \<Rightarrow> 'k \<Rightarrow> table" where
  "docClient_delete key t k = filter (\<lambda>it. key it \<noteq> k) t"

definition docClient_batchWrite :: "(item \<Rightarrow> 'k) \<Rightarrow> table \<Rightarrow> item list \<Rightarrow> table" where
  "docClient_batchWrite key t puts = foldl (docClient_put key) t puts"

record db =
  countries :: table
  neighbors :: table

section \<open>Responses and errors\<close>

text \<open>
  A response body is either a string written in the source or \<^verbatim>\<open>JSON.stringify\<close> of a
  value; the value is kept as it is before it is serialised.
\<close>

datatype payload = Raw string | Stringify jsval

record response =
  statusCode :: nat
  headers :: "(string \<times> string) list option"
  body :: payload

definition json_headers :: "(string \<times> string) list" where
  "json_headers = [(''content-type'', ''application/json'')]"

datatype exn =
    ValidationError "string list"
  | SyntaxError string
  | HttpError nat string
  | Error string

definition handleError :: "exn \<Rightarrow> exn + response" where
  "handleError e =
     (case e of
        ValidationError errs \<Rightarrow>
          Inr \<lparr>statusCode = 400, headers = Some json_headers,
               body = Stringify (Obj [(''errors'', Arr (map Str errs))])\<rparr>
      | SyntaxError m \<Rightarrow>
          Inr \<lparr>statusCode = 400, headers = Some json_headers,
               body = Stringify (Obj [(''error'',
                 Str (''invalid request body format : '' @ [CHR 0x22] @ m @ [CHR 0x22]))])\<rparr>
      | HttpError sc m \<Rightarrow>
          Inr \<lparr>statusCode = sc, headers = Some json_headers, body = Raw m\<rparr>
      | Error m \<Rightarrow> Inl (Error m))"

text \<open>The catch-all of \<^verbatim>\<open>createCountry\<close>, \<^verbatim>\<open>addNeighbors\<close> and \<^verbatim>\<open>getCountryNeighbors\<close>.\<close>

definition internal_server_error :: "string \<Rightarrow> response" where
  "internal_server_error m =
     \<lparr>statusCode = 500, headers = Some json_headers,
      body = Stringify (Obj [(''message'', Str ''Internal Server Error''), (''error'', Str m)])\<rparr>"

section \<open>Country records\<close>

text \<open>
  \<^verbatim>\<open>JSON.parse(event.body)\<close> is not modelled: a handler takes its outcome, \<open>Inl\<close> the
  message of the \<^verbatim>\<open>SyntaxError\<close> or \<open>Inr\<close> the parsed value. \<^verbatim>\<open>v4()\<close> of the uuid
  library is a parameter, the identifier it returns at its i-th call. The verdict of yup's
  \<^verbatim>\<open>schema.validate\<close> with \<^verbatim>\<open>abortEarly: false\<close> is a parameter too: the list of
  the messages of the failed fields, empty when the payload passes. A path parameter is
  the string the route matched.

  \<^verbatim>\<open>fetchCountryById\<close> returns \<^verbatim>\<open>output.Item\<close>, which is \<^verbatim>\<open>undefined\<close> (\<open>None\<close>) when
  no item has the key; it throws nothing. \<^verbatim>\<open>getCountry\<close>, \<^verbatim>\<open>updateCountry\<close> and
  \<^verbatim>\<open>deleteCountry\<close> await it inside a \<^verbatim>\<open>try\<close> whose \<^verbatim>\<open>catch\<close> is \<^verbatim>\<open>handleError\<close>.
\<close>

definition fetchCountryById :: "jsval \<Rightarrow> db \<Rightarrow> item option" where
  "fetchCountryById cid s = docClient_get country_key (countries s) cid"

definition createCountry :: "(nat \<Rightarrow> string) \<Rightarrow> string + jsval \<Rightarrow> db \<Rightarrow> response \<times> db" where
  "createCountry v4 parsed s =
     (case parsed of
        Inl m \<Rightarrow> (internal_server_error m, s)
      | Inr requestBody \<Rightarrow>
          if \<not> isArray requestBody
          then (internal_server_error ''Request body should be an array of countries.'', s)
          else
            (let cs = map (\<lambda>(i, country). set_prop (spread country) ''countryID'' (Str (v4 i)))
                        (enumerate 0 (case requestBody of Arr xs \<Rightarrow> xs | _ \<Rightarrow> []))
             in (\<lparr>statusCode = 201, headers = Some json_headers,
                  body = Stringify (Arr (map Obj cs))\<rparr>,
                 s\<lparr>countries := docClient_batchWrite country_key (countries s) cs\<rparr>)))"

definition getCountry :: "string \<Rightarrow> db \<Rightarrow> exn + response" where
  "getCountry cid s =
     (let country = fetchCountryById (Str cid) s
      in Inr \<lparr>statusCode = 200, headers = Some json_headers,
              body = Stringify (case country of None \<Rightarrow> Undefined | Some it \<Rightarrow> Obj it)\<rparr>)"

definition updateCountry ::
  "(jsval \<Rightarrow> string list) \<Rightarrow> string \<Rightarrow> string + jsval \<Rightarrow> db \<Rightarrow> (exn + response) \<times> db" where
  "updateCountry validate cid parsed s =
     (let fetched = fetchCountryById (Str cid) s
      in case parsed of
           Inl m \<Rightarrow> (handleError (SyntaxError m), s)
         | Inr reqBody \<Rightarrow>
             if validate reqBody \<noteq> [] then (handleError (ValidationError (validate reqBody)), s)
             else
               (let country = set_prop (spread reqBody) ''countryID'' (Str cid)
                in (Inr \<lparr>statusCode = 200, headers = Some json_headers,
                         body = Stringify (Obj country)\<rparr>,
                    s\<lparr>countries := docClient_put country_key (countries s) country\<rparr>)))"

definition deleteCountry :: "string \<Rightarrow> db \<Rightarrow> (exn + response) \<times> db" where
  "deleteCountry cid s =
     (let fetched = fetchCountryById (Str cid) s
      in (Inr \<lparr>statusCode = 204, headers = None, body = Raw ''''\<rparr>,
          s\<lparr>countries := docClient_delete country_key (countries s) (Str cid)\<rparr>))"

definition listCountry :: "db \<Rightarrow> response" where
  "listCountry s =
     \<lparr>statusCode = 200, headers = Some json_headers,
      body = Stringify (Arr (map Obj (countries s)))\<rparr>"

section \<open>Neighbours\<close>

text \<open>
  The body of \<^verbatim>\<open>addNeighbors\<close> has the type the source gives it,
  \<^verbatim>\<open>{ neighborId: string }[]\<close> under the property \<^verbatim>\<open>neighbors\<close>; the handler takes the
  outcome of \<^verbatim>\<open>JSON.parse\<close> at that type.
\<close>

record neighborObj =
  neighborId :: string

definition fetchAllCountryIds :: "db \<Rightarrow> jsval list" where
  "fetchAllCountryIds s = map (\<lambda>it. get_prop it ''countryID'') (countries s)"

definition fetchNeighbor :: "string \<Rightarrow> string \<Rightarrow> db \<Rightarrow> item option" where
  "fetchNeighbor countryID nid s =
     docClient_get neighbor_key (neighbors s) (Str countryID, Str nid)"

definition addNeighbor :: "string \<Rightarrow> string \<Rightarrow> db \<Rightarrow> db" where
  "addNeighbor countryID nid s =
     s\<lparr>neighbors := docClient_put neighbor_key (neighbors s)
                       [(''countryID'', Str countryID), (''neighborId'', Str nid)]\<rparr>"

text \<open>
  The \<^verbatim>\<open>for\<close> loop of \<^verbatim>\<open>addNeighbors\<close>, with the two arrays it pushes to and the store
  it writes.
\<close>

fun neighbor_loop ::
  "string \<Rightarrow> jsval list \<Rightarrow> neighborObj list \<Rightarrow> string list \<Rightarrow> string list \<Rightarrow> db
   \<Rightarrow> string list \<times> string list \<times> db" where
  "neighbor_loop countryID existingCountryIds [] errors successfulAdditions s =
     (errors, successfulAdditions, s)"
| "neighbor_loop countryID existingCountryIds (neighborObj # rest) errors successfulAdditions s =
     (if Str (neighborId neighborObj) \<notin> set existingCountryIds
      then neighbor_loop countryID existingCountryIds rest
             (errors @ [''Invalid neighbor country ID: '' @ neighborId neighborObj])
             successfulAdditions s
      else if fetchNeighbor countryID (neighborId neighborObj) s \<noteq> None
      then neighbor_loop countryID existingCountryIds rest
             (errors @ [''Neighbor with ID '' @ neighborId neighborObj
                        @ '' already exists for this country''])
             successfulAdditions s
      else neighbor_loop countryID existingCountryIds rest errors
             (successfulAdditions @ [neighborId neighborObj])
             (addNeighbor countryID (neighborId neighborObj) s))"

definition country_not_found :: response where
  "country_not_found =
     \<lparr>statusCode = 404, headers = Some json_headers,
      body = Stringify (Obj [(''message'', Str ''Country not found''), (''data'', Obj [])])\<rparr>"

definition addNeighbors :: "string \<Rightarrow> string + neighborObj list \<Rightarrow> db \<Rightarrow> response \<times> db" where
  "addNeighbors countryID parsed s =
     (case parsed of
        Inl m \<Rightarrow> (internal_server_error m, s)
      | Inr neighborData \<Rightarrow>
          (case fetchCountryById (Str countryID) s of
             None \<Rightarrow> (country_not_found, s)
           | Some country \<Rightarrow>
               (case neighbor_loop countryID (fetchAllCountryIds s) neighborData [] [] s of
                  (errors, successfulAdditions, s') \<Rightarrow>
                    if length successfulAdditions = 0
                    then (\<lparr>statusCode = 400, headers = Some json_headers,
                           body = Stringify (Obj [(''message'', Str ''Failed to add neighbors''),
                             (''data'', Obj [(''neighbors'', Arr []),
                                             (''errors'', Arr (map Str errors))])])\<rparr>, s')
                    else (\<lparr>statusCode = 200, headers = Some json_headers,
                           body = Stringify (Obj [(''message'', Str ''Neighbors added successfully''),
                             (''data'', Obj [(''neighbors'', Arr (map Str successfulAdditions))]),
                             (''errors'', Arr (map Str errors))])\<rparr>, s'))))"

definition fetchNeighborsByCountryId :: "string \<Rightarrow> db \<Rightarrow> jsval list" where
  "fetchNeighborsByCountryId countryID s =
     map (\<lambda>it. get_prop it ''neighborId'')
       (filter (\<lambda>it. get_prop it ''countryID'' = Str countryID) (neighbors s))"

definition project_neighbor :: "item \<Rightarrow> jsval" where
  "project_neighbor neighbor =
     Obj [(''id'', get_prop neighbor ''countryID''),
          (''name'', get_prop neighbor ''name''),
          (''cca3'', get_prop neighbor ''cca3''),
          (''currency_code'', get_prop neighbor ''currency_code''),
          (''currency'', get_prop neighbor ''currency''),
          (''capital'', get_prop neighbor ''capital''),
          (''region'', get_prop neighbor ''region''),
          (''subregion'', get_prop neighbor ''subregion''),
          (''area'', get_prop neighbor ''area''),
          (''map_url'', get_prop neighbor ''map_url''),
          (''population'', get_prop neighbor ''population''),
          (''flag_url'', get_prop neighbor ''flag_url'')]"

text \<open>
  Reading \<^verbatim>\<open>neighbor.countryID\<close> of a neighbour whose record is gone throws a
  \<^verbatim>\<open>TypeError\<close>, which the handler's catch turns into a 500 with the engine's message.
\<close>

definition undefined_property_message :: string where
  "undefined_property_message =
     ''Cannot read properties of undefined (reading '' @ [CHR 0x27] @ ''countryID'' @ [CHR 0x27] @ '')''"

definition getCountryNeighbors :: "string \<Rightarrow> db \<Rightarrow> response" where
  "getCountryNeighbors countryID s =
     (case fetchCountryById (Str countryID) s of
        None \<Rightarrow> country_not_found
      | Some country \<Rightarrow>
          (let nbrs = fetchNeighborsByCountryId countryID s
           in if length nbrs = 0
              then \<lparr>statusCode = 200, headers = Some json_headers,
                    body = Stringify (Obj [(''message'', Str ''Country neighbours''),
                      (''data'', Obj [(''countries'', Arr [])])])\<rparr>
              else
                (case those (map (\<lambda>n. fetchCountryById n s) nbrs) of
                   None \<Rightarrow> internal_server_error undefined_property_message
                 | Some found \<Rightarrow>
                     \<lparr>statusCode = 200, headers = Some json_headers,
                      body = Stringify (Obj [(''message'', Str ''Country neighbours''),
                        (''data'', Obj [(''countries'', Arr (map project_neighbor found))])])\<rparr>)))"

section \<open>The paginated listing\<close>

subsection \<open>Rounding to a double\<close>

text \<open>
  \<open>pow2 e\<close> is the power of two with exponent \<open>e\<close>, \<open>floor_log2 a\<close> the exponent of the
  binade of a positive \<open>a\<close>. A double has 53 significant bits, so in the binade of exponent
  \<open>e\<close> the doubles are the multiples of \<open>pow2 (e - 52)\<close>; below \<open>pow2 (- 1022)\<close> they are
  the multiples of \<open>pow2 (- 1074)\<close> (the subnormal numbers). \<open>round_double\<close> takes the exact
  result of an operation to the nearest of these, a tie to the one with an even multiple;
  what rounds to \<open>2 ^ 1024\<close> or more is an infinity, and what rounds to zero keeps its sign.
\<close>

definition pow2 :: "int \<Rightarrow> rat" where
  "pow2 e = (if 0 \<le> e then 2 ^ nat e else 1 / 2 ^ nat (- e))"

definition floor_log2 :: "rat \<Rightarrow> int" where
  "floor_log2 a = (if 1 \<le> a then bitlen \<lfloor>a\<rfloor> - 1 else - bitlen (\<lceil>1 / a\<rceil> - 1))"

definition round_half_even :: "rat \<Rightarrow> int" where
  "round_half_even m =
     (let f = \<lfloor>m\<rfloor>; r = m - of_int f
      in if r < 1 / 2 then f else if 1 / 2 < r then f + 1 else if even f then f else f + 1)"

definition round_double :: "rat \<Rightarrow> jsnum" where
  "round_double x =
     (if x = 0 then Fin 0
      else
        (let a = \<bar>x\<bar>;
             e = max (floor_log2 a) (- 1022);
             u = pow2 (e - 52);
             y = of_int (round_half_even (a / u)) * u
         in if 2 ^ 1024 \<le> y then (if 0 < x then PInf else NInf)
            else if y = 0 then (if 0 < x then Fin 0 else NegZero)
            else Fin (if 0 < x then y else - y)))"

subsection \<open>Arithmetic and comparison\<close>

fun is_finite :: "jsnum \<Rightarrow> bool" where
  "is_finite NegZero = True"
| "is_finite (Fin q) = True"
| "is_finite x = False"

fun is_negative :: "jsnum \<Rightarrow> bool" where
  "is_negative NInf = True"
| "is_negative NegZero = True"
| "is_negative (Fin q) = (q < 0)"
| "is_negative x = False"

fun number_value :: "jsnum \<Rightarrow> rat" where
  "number_value (Fin q) = q"
| "number_value x = 0"

definition signed_zero :: "bool \<Rightarrow> jsnum" where
  "signed_zero neg = (if neg then NegZero else Fin 0)"

definition signed_infinity :: "bool \<Rightarrow> jsnum" where
  "signed_infinity neg = (if neg then NInf else PInf)"

fun js_neg :: "jsnum \<Rightarrow> jsnum" where
  "js_neg NaN = NaN"
| "js_neg PInf = NInf"
| "js_neg NInf = PInf"
| "js_neg NegZero = Fin 0"
| "js_neg (Fin q) = (if q = 0 then NegZero else Fin (- q))"

text \<open>
  \<^verbatim>\<open>x + y\<close>: an exact sum that is zero is the negative zero only when both operands are
  negative zeros. \<^verbatim>\<open>x - y\<close> is \<^verbatim>\<open>x + (-y)\<close>.
\<close>

definition js_add :: "jsnum \<Rightarrow> jsnum \<Rightarrow> jsnum" where
  "js_add x y =
     (if x = NaN \<or> y = NaN then NaN
      else if \<not> is_finite x then (if \<not> is_finite y \<and> x \<noteq> y then NaN else x)
      else if \<not> is_finite y then y
      else if number_value x + number_value y = 0
        then signed_zero (is_negative x \<and> is_negative y)
      else round_double (number_value x + number_value y))"

definition js_sub :: "jsnum \<Rightarrow> jsnum \<Rightarrow> jsnum" where
  "js_sub x y = js_add x (js_neg y)"

text \<open>\<^verbatim>\<open>x * y\<close> and \<^verbatim>\<open>x / y\<close>: the sign of a zero or an infinity is the product of the signs.\<close>

definition js_mul :: "jsnum \<Rightarrow> jsnum \<Rightarrow> jsnum" where
  "js_mul x y =
     (if x = NaN \<or> y = NaN then NaN
      else if \<not> is_finite x \<or> \<not> is_finite y
        then (if (is_finite x \<and> number_value x = 0) \<or> (is_finite y \<and> number_value y = 0) then NaN
              else signed_infinity (is_negative x \<noteq> is_negative y))
      else if number_value x * number_value y = 0
        then signed_zero (is_negative x \<noteq> is_negative y)
      else round_double (number_value x * number_value y))"

definition js_div :: "jsnum \<Rightarrow> jsnum \<Rightarrow> jsnum" where
  "js_div x y =
     (if x = NaN \<or> y = NaN then NaN
      else if \<not> is_finite x
        then (if \<not> is_finite y then NaN else signed_infinity (is_negative x \<noteq> is_negative y))
      else if \<not> is_finite y then signed_zero (is_negative x \<noteq> is_negative y)
      else if number_value y = 0
        then (if number_value x = 0 then NaN
              else signed_infinity (is_negative x \<noteq> is_negative y))
      else if number_value x = 0 then signed_zero (is_negative x \<noteq> is_negative y)
      else round_double (number_value x / number_value y))"

text \<open>\<^verbatim>\<open>Math.ceil\<close>: a number between -1 and 0 gives the negative zero.\<close>

fun js_ceil :: "jsnum \<Rightarrow> jsnum" where
  "js_ceil (Fin q) = (if q < 0 \<and> \<lceil>q\<rceil> = 0 then NegZero else Fin (of_int \<lceil>q\<rceil>))"
| "js_ceil x = x"

definition js_lt :: "jsnum \<Rightarrow> jsnum \<Rightarrow> bool" where
  "js_lt x y =
     (if x = NaN \<or> y = NaN then False
      else if is_finite x \<and> is_finite y then number_value x < number_value y
      else (x = NInf \<and> y \<noteq> NInf) \<or> (y = PInf \<and> x \<noteq> PInf))"

definition js_gt :: "jsnum \<Rightarrow> jsnum \<Rightarrow> bool" where
  "js_gt x y = js_lt y x"

subsection \<open>slice\<close>

text \<open>
  \<^verbatim>\<open>Array.prototype.slice\<close>: each bound is made an integer (\<open>NaN\<close> and the zeros are 0, a
  fraction is cut towards 0), a negative bound counts from the end, and both are clamped
  to the array.
\<close>

definition relative_index :: "nat \<Rightarrow> jsnum \<Rightarrow> nat" where
  "relative_index len x =
     (case x of
        NaN \<Rightarrow> 0
      | NInf \<Rightarrow> 0
      | PInf \<Rightarrow> len
      | NegZero \<Rightarrow> 0
      | Fin q \<Rightarrow>
          (let k = (if q < 0 then \<lceil>q\<rceil> else \<lfloor>q\<rfloor>)
           in if k < 0 then nat (max (int len + k) 0) else min (nat k) len))"

definition js_slice :: "'a list \<Rightarrow> jsnum \<Rightarrow> jsnum \<Rightarrow> 'a list" where
  "js_slice xs start fin =
     (let len = length xs;
          k = relative_index len start;
          final = relative_index len fin
      in take (final - k) (drop k xs))"

subsection \<open>parseInt\<close>

text \<open>
  A query parameter is a JavaScript string, the list of its UTF-16 code units; \<open>utf16\<close>
  gives the code units of an ASCII literal.

  \<^verbatim>\<open>parseInt\<close> with no radix: leading white space is dropped (the white space and line
  terminators of ECMAScript: TAB, LF, VT, FF, CR, SP, NBSP, U+1680, U+2000 to U+200A,
  U+2028, U+2029, U+202F, U+205F, U+3000, U+FEFF), then a sign, then \<^verbatim>\<open>0x\<close> or \<^verbatim>\<open>0X\<close>
  selects radix 16 (radix 10 otherwise). The digits are the longest run of digits of the
  radix; no digit gives \<open>NaN\<close>, the value zero gives the zero of the sign, and every other
  value is rounded to a double with its sign. Every digit counts (the engine rounds the
  whole numeral correctly).
\<close>

definition utf16 :: "string \<Rightarrow> nat list" where
  "utf16 s = map of_char s"

definition is_white :: "nat \<Rightarrow> bool" where
  "is_white c =
     (c \<in> set [0x09, 0x0A, 0x0B, 0x0C, 0x0D, 0x20, 0xA0, 0x1680, 0x2028, 0x2029,
                0x202F, 0x205F, 0x3000, 0xFEFF]
      \<or> (0x2000 \<le> c \<and> c \<le> 0x200A))"

definition digit_of :: "nat \<Rightarrow> nat option" where
  "digit_of c =
     (if 48 \<le> c \<and> c \<le> 57 then Some (c - 48)
      else if 97 \<le> c \<and> c \<le> 122 then Some (c - 87)
      else if 65 \<le> c \<and> c \<le> 90 then Some (c - 55)
      else None)"

definition in_radix :: "nat \<Rightarrow> nat \<Rightarrow> bool" where
  "in_radix r c = (case digit_of c of None \<Rightarrow> False | Some d \<Rightarrow> d < r)"

definition digits_value :: "nat \<Rightarrow> nat list \<Rightarrow> int" where
  "digits_value r ds =
     foldl (\<lambda>a c. a * int r + (case digit_of c of None \<Rightarrow> 0 | Some d \<Rightarrow> int d)) 0 ds"

definition parseInt :: "nat list \<Rightarrow> jsnum" where
  "parseInt str =
     (let s0 = dropWhile is_white str;
          neg = (case s0 of [] \<Rightarrow> False | c # r \<Rightarrow> c = 0x2D);
          s1 = (case s0 of [] \<Rightarrow> s0
                | c # r \<Rightarrow> if c = 0x2D \<or> c = 0x2B then r else s0);
          hex = (case s1 of a # b # r \<Rightarrow> a = 0x30 \<and> (b = 0x78 \<or> b = 0x58)
                 | _ \<Rightarrow> False);
          radix = (if hex then 16 else 10);
          s2 = (if hex then drop 2 s1 else s1);
          z = takeWhile (in_radix radix) s2;
          mathInt = digits_value radix z
      in if z = [] then NaN
         else if mathInt = 0 then signed_zero neg
         else round_double (if neg then - of_int mathInt else of_int mathInt))"

subsection \<open>The handler\<close>

text \<open>
  \<^verbatim>\<open>getAllCountriesPaginated\<close> from the two query parameters \<^verbatim>\<open>page\<close> and \<^verbatim>\<open>limit\<close>
  (absent: \<open>None\<close>) and \<open>items\<close>, the array \<^verbatim>\<open>output.Items\<close> as the scan with the search
  filter returned it and the in-place sort left it. The scan, the filter expression and
  the comparator (lines 423 to 488) run before and give \<open>items\<close>; the pagination below
  reads nothing else from them. An exception there (a search text that is no regular
  expression, a scan that fails) is answered 500 by the handler's \<^verbatim>\<open>catch\<close> before the
  pagination starts. \<^verbatim>\<open>parseInt\<close>, the arithmetic and \<^verbatim>\<open>slice\<close> throw nothing.
\<close>

definition getAllCountriesPaginated ::
  "nat list option \<Rightarrow> nat list option \<Rightarrow> item list \<Rightarrow> response" where
  "getAllCountriesPaginated page_param limit_param items =
     (let page = (case page_param of None \<Rightarrow> utf16 ''1'' | Some p \<Rightarrow> p);
          limit = (case limit_param of None \<Rightarrow> utf16 ''10'' | Some l \<Rightarrow> l);
          skip = js_mul (js_sub (parseInt page) (Fin 1)) (parseInt limit);
          totalCountries = Fin (of_nat (length items));
          totalPages = js_ceil (js_div totalCountries (parseInt limit));
          countries = js_slice items skip (js_add skip (parseInt limit));
          hasNext = js_lt (parseInt page) totalPages;
          hasPrev = js_gt (parseInt page) (Fin 1)
      in \<lparr>statusCode = 200, headers = None,
          body = Stringify (Obj [(''message'', Str ''Country list''),
            (''data'', Obj [(''list'', Arr (map Obj countries)),
                            (''has_next'', Bool hasNext),
                            (''has_prev'', Bool hasPrev),
                            (''page'', Num (parseInt page)),
                            (''pages'', Num totalPages),
                            (''per_page'', Num (parseInt limit)),
                            (''total'', Num totalCountries)])])\<rparr>)"

subsection \<open>Notions of the proofs\<close>

text \<open>
  \<open>rounded a\<close> is the magnitude \<open>round_double\<close> computes for a positive \<open>a\<close>; \<open>decimal\<close> holds
  of the code units of the ten decimal digits, the ones \<open>show_nat\<close> writes; \<open>at_least b x\<close>
  holds of a number \<open>x\<close> that is \<open>Infinity\<close> or finite and at least \<open>b\<close>.
\<close>

definition rounded :: "rat \<Rightarrow> rat" where
  "rounded a =
     of_int (round_half_even (a / pow2 (max (floor_log2 a) (- 1022) - 52)))
       * pow2 (max (floor_log2 a) (- 1022) - 52)"

definition decimal :: "nat \<Rightarrow> bool" where
  "decimal c = (48 \<le> c \<and> c \<le> 57)"

definition at_least :: "rat \<Rightarrow> jsnum \<Rightarrow> bool" where
  "at_least b x = (case x of PInf \<Rightarrow> True | Fin q \<Rightarrow> b \<le> q | _ \<Rightarrow> False)"

section \<open>Example data\<close>

text \<open>Two stored countries, a payload that has every field the schema requires, and a
  generator of identifiers; the closed theorems below evaluate the handlers on them.\<close>

definition india :: item where
  "india = [(''name'', Str ''India''), (''capital'', Str ''New Delhi''),
            (''region'', Str ''Asia''), (''countryID'', Str ''id-india'')]"

definition nepal :: item where
  "nepal = [(''name'', Str ''Nepal''), (''capital'', Str ''Kathmandu''),
            (''region'', Str ''Asia''), (''countryID'', Str ''id-nepal'')]"

definition example_db :: db where
  "example_db = \<lparr>countries = [india, nepal], neighbors = []\<rparr>"

definition related_db :: db where
  "related_db = \<lparr>countries = [india, nepal],
                  neighbors = [[(''countryID'', Str ''id-india''), (''neighborId'', Str ''id-nepal'')]]\<rparr>"

definition bhutan_payload :: item where
  "bhutan_payload =
     [(''name'', Str ''Bhutan''), (''description'', Str ''Himalayan kingdom''),
      (''currency'', Str ''Ngultrum''), (''capital'', Str ''Thimphu''),
      (''region'', Str ''Asia''), (''subregion'', Str ''Southern Asia''),
      (''area'', Num (Fin 38394)), (''population'', Num (Fin 771608)),
      (''flag_url'', Str ''https://flags.example/bt.png'')]"

definition example_v4 :: "nat \<Rightarrow> string" where
  "example_v4 i = ''uuid-'' @ show_nat i"

definition accepts_all :: "jsval \<Rightarrow> string list" where
  "accepts_all payload = []"

definition numbered_items :: "nat \<Rightarrow> item list" where
  "numbered_items n = map (\<lambda>i. [(''countryID'', Str (show_nat i))]) [0..<n]"

section \<open>Properties of the store and of the loop\<close>

lemmas ex_defs = india_def nepal_def example_db_def related_db_def bhutan_payload_def
  accepts_all_def fetchCountryById_def docClient_get_def country_key_def get_prop_def
  json_headers_def

lemma put_absent: "docClient_get key t (key it) = None \<Longrightarrow> docClient_put key t it = t @ [it]"
  by (induction t) (auto simp: docClient_get_def split: if_splits)

lemma get_put_same: "docClient_get key (docClient_put key t it) (key it) = Some it"
  by (induction t) (auto simp: docClient_get_def)

lemma get_put_other: "k \<noteq> key it \<Longrightarrow> docClient_get key (docClient_put key t it) k = docClient_get key t k"
  by (induction t) (auto simp: docClient_get_def)

lemma get_prop_set_prop: "get_prop (set_prop fs k v) k = v"
  by (induction fs) (auto simp: get_prop_def)

lemma delete_then_get: "docClient_get key (docClient_delete key t k) k = None"
  by (simp add: docClient_get_def docClient_delete_def find_None_iff)

lemma delete_absent: "docClient_get key t k = None \<Longrightarrow> docClient_delete key t k = t"
  by (auto simp: docClient_get_def docClient_delete_def find_None_iff filter_id_conv)

lemma neighbor_key_pair [simp]:
  "neighbor_key [(''countryID'', Str c), (''neighborId'', Str n)] = (Str c, Str n)"
  by (simp add: neighbor_key_def get_prop_def)

lemma countries_addNeighbor [simp]: "countries (addNeighbor c n s) = countries s"
  by (simp add: addNeighbor_def)

lemma fetchNeighbor_addNeighbor_same: "fetchNeighbor c n (addNeighbor c n s) = Some [(''countryID'', Str c), (''neighborId'', Str n)]"
  unfolding fetchNeighbor_def addNeighbor_def
  using get_put_same [of neighbor_key "neighbors s" "[(''countryID'', Str c), (''neighborId'', Str n)]"]
  by simp

lemma addNeighbor_absent:
  "fetchNeighbor c n s = None \<Longrightarrow>
   addNeighbor c n s = s\<lparr>neighbors := neighbors s @ [[(''countryID'', Str c), (''neighborId'', Str n)]]\<rparr>"
  unfolding fetchNeighbor_def addNeighbor_def
  using put_absent [of neighbor_key "neighbors s" "[(''countryID'', Str c), (''neighborId'', Str n)]"]
  by simp

lemma query_put_other:
  "get_prop it ''countryID'' \<noteq> Str b \<Longrightarrow>
   filter (\<lambda>x. get_prop x ''countryID'' = Str b) (docClient_put neighbor_key t it)
   = filter (\<lambda>x. get_prop x ''countryID'' = Str b) t"
  by (induction t) (auto simp: neighbor_key_def)

lemma query_addNeighbor_other:
  "a \<noteq> b \<Longrightarrow> fetchNeighborsByCountryId b (addNeighbor a n s) = fetchNeighborsByCountryId b s"
proof -
  assume "a \<noteq> b"
  then have "get_prop [(''countryID'', Str a), (''neighborId'', Str n)] ''countryID'' \<noteq> Str b"
    by (simp add: get_prop_def)
  then show ?thesis
    unfolding fetchNeighborsByCountryId_def addNeighbor_def
    by (simp add: query_put_other)
qed

lemma loop_query_other:
  "a \<noteq> b \<Longrightarrow> neighbor_loop a ids data errs added s = (errs', added', s') \<Longrightarrow>
   fetchNeighborsByCountryId b s' = fetchNeighborsByCountryId b s"
  by (induction a ids data errs added s rule: neighbor_loop.induct)
     (auto split: if_splits simp: query_addNeighbor_other)

lemma loop_lengths:
  "neighbor_loop c ids data errs added s = (errs', added', s') \<Longrightarrow>
   length errs' + length added' = length errs + length added + length data"
  by (induction c ids data errs added s rule: neighbor_loop.induct) (auto split: if_splits)

lemma loop_store:
  "neighbor_loop c ids data errs added s = (errs', added', s') \<Longrightarrow>
   \<exists>new. added' = added @ new \<and> s' = foldl (\<lambda>st n. addNeighbor c n st) s new"
proof (induction c ids data errs added s rule: neighbor_loop.induct)
  case (1 countryID existingCountryIds errors successfulAdditions s)
  then show ?case by simp
next
  case (2 c ids obj rest errors added s)
  show ?case
  proof (cases "Str (neighborId obj) \<notin> set ids")
    case True
    with 2 show ?thesis by simp
  next
    case False
    note valid = this
    show ?thesis
    proof (cases "fetchNeighbor c (neighborId obj) s \<noteq> None")
      case True
      with 2 valid show ?thesis by simp
    next
      case False
      with 2(3) [OF valid False] 2(4) valid
      obtain new where "added' = (added @ [neighborId obj]) @ new"
        and "s' = foldl (\<lambda>st n. addNeighbor c n st) (addNeighbor c (neighborId obj) s) new"
        by auto
      then show ?thesis by (intro exI [of _ "neighborId obj # new"]) simp
    qed
  qed
qed


lemma addNeighbors_unfold:
  assumes "fetchCountryById (Str c) s = Some country"
    and "neighbor_loop c (fetchAllCountryIds s) data [] [] s = (errors, added, s')"
  shows "addNeighbors c (Inr data) s =
     (if added = []
      then \<lparr>statusCode = 400, headers = Some json_headers,
             body = Stringify (Obj [(''message'', Str ''Failed to add neighbors''),
               (''data'', Obj [(''neighbors'', Arr []), (''errors'', Arr (map Str errors))])])\<rparr>
      else \<lparr>statusCode = 200, headers = Some json_headers,
             body = Stringify (Obj [(''message'', Str ''Neighbors added successfully''),
               (''data'', Obj [(''neighbors'', Arr (map Str added))]),
               (''errors'', Arr (map Str errors))])\<rparr>, s')"
  using assms by (simp add: addNeighbors_def)

lemma loop_outcomes:
  "neighbor_loop c ids data errs added s = (errs', added', s') \<Longrightarrow>
   \<exists>outs. length outs = length data
     \<and> added' = added @ map (\<lambda>p. neighborId (fst p)) (filter (\<lambda>p. snd p = None) (zip data outs))
     \<and> errs' = errs @ map the (filter (\<lambda>r. r \<noteq> None) outs)
     \<and> list_all2 (\<lambda>obj r. r = None
            \<or> r = Some (''Invalid neighbor country ID: '' @ neighborId obj)
            \<or> r = Some (''Neighbor with ID '' @ neighborId obj @ '' already exists for this country''))
          data outs"
proof (induction c ids data errs added s rule: neighbor_loop.induct)
  case (1 c ids errors added s)
  then show ?case by simp
next
  case (2 c ids obj rest errors added s)
  let ?inv = "''Invalid neighbor country ID: '' @ neighborId obj"
  let ?dup = "''Neighbor with ID '' @ neighborId obj @ '' already exists for this country''"
  let ?P = "\<lambda>r errs0 added0 outs. length outs = length rest
     \<and> added' = added0 @ map (\<lambda>p. neighborId (fst p)) (filter (\<lambda>p. snd p = None) (zip rest outs))
     \<and> errs' = errs0 @ map the (filter (\<lambda>r. r \<noteq> None) outs)
     \<and> list_all2 (\<lambda>obj r. r = None
            \<or> r = Some (''Invalid neighbor country ID: '' @ neighborId obj)
            \<or> r = Some (''Neighbor with ID '' @ neighborId obj @ '' already exists for this country''))
          rest outs"
  show ?case
  proof (cases "Str (neighborId obj) \<notin> set ids")
    case True
    with 2(1) [OF True] 2(4) obtain outs where "?P () (errors @ [?inv]) added outs"
      by auto
    then show ?thesis by (intro exI [of _ "Some ?inv # outs"]) simp
  next
    case False
    note valid = this
    show ?thesis
    proof (cases "fetchNeighbor c (neighborId obj) s \<noteq> None")
      case True
      with 2(2) [OF valid True] 2(4) valid obtain outs where "?P () (errors @ [?dup]) added outs"
        by auto
      then show ?thesis by (intro exI [of _ "Some ?dup # outs"]) simp
    next
      case False
      with 2(3) [OF valid False] 2(4) valid
      obtain outs where "?P () errors (added @ [neighborId obj]) outs"
        by auto
      then show ?thesis by (intro exI [of _ "None # outs"]) simp
    qed
  qed
qed

lemma addNeighbors_query_other:
  assumes "a \<noteq> b"
  shows "fetchNeighborsByCountryId b (snd (addNeighbors a parsed s)) = fetchNeighborsByCountryId b s"
proof (cases parsed)
  case (Inl m)
  then show ?thesis by (simp add: addNeighbors_def)
next
  case (Inr data)
  show ?thesis
  proof (cases "fetchCountryById (Str a) s")
    case None
    with Inr show ?thesis by (simp add: addNeighbors_def)
  next
    case (Some country)
    obtain errors added s' where
      loop: "neighbor_loop a (fetchAllCountryIds s) data [] [] s = (errors, added, s')"
      by (cases "neighbor_loop a (fetchAllCountryIds s) data [] [] s") auto
    from addNeighbors_unfold [OF Some loop] have "snd (addNeighbors a (Inr data) s) = s'"
      by simp
    with loop_query_other [OF assms loop] Inr show ?thesis by simp
  qed
qed

lemma fetchNeighbor_None_count:
  "fetchNeighbor c x s = None \<Longrightarrow>
   filter (\<lambda>it. neighbor_key it = (Str c, Str x)) (neighbors s) = []"
  by (auto simp: fetchNeighbor_def docClient_get_def find_None_iff filter_empty_conv)

lemma fetchNeighbor_member:
  "fetchNeighbor b a s = None \<Longrightarrow> Str a \<notin> set (fetchNeighborsByCountryId b s)"
  by (auto simp: fetchNeighbor_def docClient_get_def find_None_iff neighbor_key_def
      fetchNeighborsByCountryId_def)

lemma getCountryNeighbors_cong:
  "countries s' = countries s \<Longrightarrow> fetchNeighborsByCountryId b s' = fetchNeighborsByCountryId b s
   \<Longrightarrow> getCountryNeighbors b s' = getCountryNeighbors b s"
  by (simp add: getCountryNeighbors_def fetchCountryById_def Let_def split: option.splits)

section \<open>Properties of the number functions\<close>

subsection \<open>Powers of two and rounding to an integer\<close>

lemma pow2_powi: "pow2 e = 2 powi e"
  by (simp add: pow2_def power_int_def inverse_eq_divide power_one_over)

lemma pow2_pos: "0 < pow2 e"
  by (simp add: pow2_powi)

lemma pow2_add: "pow2 (a + b) = pow2 a * pow2 b"
  by (simp add: pow2_powi power_int_add)

lemma pow2_nat: "0 \<le> e \<Longrightarrow> pow2 e = 2 ^ nat e"
  by (simp add: pow2_def)

lemma pow2_mono: "a \<le> b \<Longrightarrow> pow2 a \<le> pow2 b"
  by (simp add: pow2_powi power_int_increasing)

lemma pow2_less_cancel: "pow2 a < pow2 b \<Longrightarrow> a < b"
  using pow2_mono [of b a] by (cases "a < b") auto

lemma rhe_int: "round_half_even (of_int k) = k"
  by (simp add: round_half_even_def)



lemma pow2_neg: "0 < b \<Longrightarrow> pow2 (- b) = 1 / 2 ^ nat b"
  by (simp add: pow2_def)

lemma floor_log2_bounds:
  assumes "0 < a"
  shows "pow2 (floor_log2 a) \<le> a" and "a < pow2 (floor_log2 a + 1)"
proof -
  have "pow2 (floor_log2 a) \<le> a \<and> a < pow2 (floor_log2 a + 1)"
  proof (cases "1 \<le> a")
    case True
    define n where "n = \<lfloor>a\<rfloor>"
    from True have n: "0 < n" by (simp add: n_def)
    from bitlen_bounds [OF n]
    have lo: "2 ^ nat (bitlen n - 1) \<le> n" and hi: "n < 2 ^ nat (bitlen n)" by simp_all
    from n have b: "1 \<le> bitlen n"
      using bitlen_eq_zero_iff [of n] bitlen_nonneg [of n] by linarith
    have e: "floor_log2 a = bitlen n - 1"
      using True by (simp add: floor_log2_def n_def)
    have "pow2 (bitlen n - 1) = of_int (2 ^ nat (bitlen n - 1))"
      using b by (simp add: pow2_nat)
    also have "\<dots> \<le> of_int n" using lo by (simp only: of_int_le_iff)
    also have "\<dots> \<le> a" by (simp add: n_def)
    finally have 1: "pow2 (floor_log2 a) \<le> a" by (simp add: e)
    have "a < of_int (n + 1)" unfolding n_def by simp linarith
    also have "\<dots> \<le> of_int (2 ^ nat (bitlen n))"
    proof -
      from hi have "n + 1 \<le> 2 ^ nat (bitlen n)" by simp
      then show ?thesis by (simp only: of_int_le_iff)
    qed
    also have "\<dots> = pow2 (bitlen n)" using b by (simp add: pow2_nat)
    finally have 2: "a < pow2 (floor_log2 a + 1)" by (simp add: e)
    from 1 2 show ?thesis ..
  next
    case False
    define c where "c = \<lceil>1 / a\<rceil>"
    define b where "b = bitlen (c - 1)"
    from False assms have inv: "1 < 1 / a" by simp
    then have c: "1 < c" by (simp add: c_def less_ceiling_iff)
    then have c1: "0 < c - 1" by simp
    from bitlen_bounds [OF c1]
    have lo: "2 ^ nat (b - 1) \<le> c - 1" and hi: "c - 1 < 2 ^ nat b" by (simp_all add: b_def)
    from c1 have b: "1 \<le> b"
      using bitlen_eq_zero_iff [of "c - 1"] bitlen_nonneg [of "c - 1"] unfolding b_def by linarith
    have e: "floor_log2 a = - b"
      using False by (simp add: floor_log2_def b_def c_def)
    have "1 / a \<le> of_int c" by (simp add: c_def)
    also have "of_int c \<le> (of_int (2 ^ nat b) :: rat)"
    proof -
      from hi have "c \<le> 2 ^ nat b" by simp
      then show ?thesis by (simp only: of_int_le_iff)
    qed
    finally have "1 / a \<le> 2 ^ nat b" by simp
    with assms have "1 / 2 ^ nat b \<le> a"
      by (simp add: field_simps)
    then have 1: "pow2 (floor_log2 a) \<le> a"
      using b by (simp add: e pow2_neg)
    have "(of_int (2 ^ nat (b - 1)) :: rat) \<le> of_int (c - 1)" using lo by (simp only: of_int_le_iff)
    also have "of_int (c - 1) < 1 / a"
    proof -
      have "c - 1 < \<lceil>1 / a\<rceil>" by (simp add: c_def)
      then show ?thesis by (simp only: less_ceiling_iff)
    qed
    finally have "2 ^ nat (b - 1) < 1 / a" by simp
    with assms have lt: "a < 1 / 2 ^ nat (b - 1)"
      by (simp add: field_simps)
    have "pow2 (- b + 1) = 1 / 2 ^ nat (b - 1)"
    proof (cases "b = 1")
      case True
      then show ?thesis by (simp add: pow2_def)
    next
      case False
      with b have "0 < b - 1" by simp
      from pow2_neg [OF this] show ?thesis by simp
    qed
    with lt have 2: "a < pow2 (floor_log2 a + 1)" by (simp add: e)
    from 1 2 show ?thesis ..
  qed
  then show "pow2 (floor_log2 a) \<le> a" and "a < pow2 (floor_log2 a + 1)" by simp_all
qed

lemma rhe_cases:
  "round_half_even m = \<lfloor>m\<rfloor> \<and> m - of_int \<lfloor>m\<rfloor> \<le> 1 / 2
   \<or> round_half_even m = \<lfloor>m\<rfloor> + 1 \<and> 1 / 2 \<le> m - of_int \<lfloor>m\<rfloor>"
  by (auto simp: round_half_even_def Let_def)

lemma rhe_upper: "m \<le> of_int K \<Longrightarrow> round_half_even m \<le> K"
proof -
  assume le: "m \<le> of_int K"
  show ?thesis
  proof (cases "m = of_int K")
    case True
    then show ?thesis by (simp add: rhe_int)
  next
    case False
    with le have "m < of_int K" by simp
    then have "\<lfloor>m\<rfloor> < K" by (simp add: floor_less_iff)
    with rhe_cases [of m] show ?thesis by auto
  qed
qed

lemma rhe_lower: "of_int K \<le> m \<Longrightarrow> K \<le> round_half_even m"
proof -
  assume "of_int K \<le> m"
  then have "K \<le> \<lfloor>m\<rfloor>" by (simp add: le_floor_iff)
  with rhe_cases [of m] show ?thesis by auto
qed

lemma rhe_near: "m - 1 / 2 \<le> of_int (round_half_even m)"
proof -
  have "m < of_int \<lfloor>m\<rfloor> + 1" by linarith
  with rhe_cases [of m] show ?thesis by auto
qed

lemma pow2_strict_mono: "a < b \<Longrightarrow> pow2 a < pow2 b"
  by (simp add: pow2_powi power_int_strict_increasing)

lemma pow2_le_cancel: "pow2 a \<le> pow2 b \<Longrightarrow> a \<le> b"
  using pow2_strict_mono [of b a] by (cases "a \<le> b") auto

lemma pow2_inverse: "pow2 d * pow2 (- d) = 1"
  using pow2_add [of d "- d"] by (simp add: pow2_def)

lemma divide_pow2: "x / pow2 d = x * pow2 (- d)"
proof -
  have "x / pow2 d = x * (pow2 d * pow2 (- d)) / pow2 d"
    by (simp only: pow2_inverse mult_1_right)
  also have "\<dots> = x * pow2 (- d)"
    using pow2_pos [of d] by simp
  finally show ?thesis .
qed

subsection \<open>Rounding to a double\<close>

text \<open>
  Integers up to \<open>2 ^ 53\<close> are doubles; what is at least a power of two rounds to at
  least that power; what rounds to \<open>2 ^ 1024\<close> or more is \<open>Infinity\<close>; and the ceiling of a
  rounded quotient of an array length by a positive integer up to \<open>2 ^ 53\<close> is the
  ceiling of the quotient.
\<close>

lemma round_double_pos:
  "0 < x \<Longrightarrow> round_double x =
     (if 2 ^ 1024 \<le> rounded x then PInf else if rounded x = 0 then Fin 0 else Fin (rounded x))"
  by (simp add: round_double_def rounded_def Let_def)

lemma rounded_multiple:
  assumes "a / pow2 (max (floor_log2 a) (- 1022) - 52) = of_int k"
  shows "rounded a = a"
proof -
  let ?u = "pow2 (max (floor_log2 a) (- 1022) - 52)"
  have "rounded a = of_int k * ?u"
    unfolding rounded_def assms rhe_int ..
  also have "\<dots> = a / ?u * ?u"
    by (simp only: assms)
  also have "\<dots> = a"
    using pow2_pos [of "max (floor_log2 a) (- 1022) - 52"] by simp
  finally show ?thesis .
qed

lemma rounded_lower:
  assumes "0 < a" and "- 1022 \<le> floor_log2 a"
  shows "pow2 (floor_log2 a) \<le> rounded a"
proof -
  let ?e = "floor_log2 a"
  let ?u = "pow2 (?e - 52)"
  from assms(2) have e: "max ?e (- 1022) = ?e" by simp
  have split: "pow2 ?e = pow2 52 * ?u"
    using pow2_add [of 52 "?e - 52"] by simp
  have "of_int (2 ^ 52) = pow2 52"
    by (simp add: pow2_def)
  also have "\<dots> = pow2 ?e / ?u"
    using pow2_pos [of "?e - 52"] by (simp add: split)
  also have "\<dots> \<le> a / ?u"
    using floor_log2_bounds(1) [OF assms(1)] pow2_pos [of "?e - 52"]
    by (simp add: divide_right_mono)
  finally have "2 ^ 52 \<le> round_half_even (a / ?u)"
    by (rule rhe_lower)
  then have "(of_int (2 ^ 52) :: rat) \<le> of_int (round_half_even (a / ?u))"
    by (simp only: of_int_le_iff)
  then have "of_int (2 ^ 52) * ?u \<le> of_int (round_half_even (a / ?u)) * ?u"
    using pow2_pos [of "?e - 52"] by (simp only: mult_le_cancel_right_pos)
  moreover have "of_int (2 ^ 52) * ?u = pow2 ?e"
  proof -
    have "pow2 52 = of_int (2 ^ 52)" by (simp add: pow2_def)
    then show ?thesis by (simp only: split)
  qed
  ultimately show ?thesis
    by (simp add: rounded_def e)
qed

lemma round_double_int:
  assumes "1 \<le> n" and "n \<le> 2 ^ 53"
  shows "round_double (of_int n) = Fin (of_int n)"
proof -
  let ?x = "of_int n :: rat"
  let ?e = "floor_log2 ?x"
  from assms have pos: "0 < ?x" by simp
  note lo = floor_log2_bounds(1) [OF pos] and hi = floor_log2_bounds(2) [OF pos]
  have "pow2 0 \<le> ?x" using assms by (simp add: pow2_def)
  with hi have "pow2 0 < pow2 (?e + 1)" by simp
  then have e0: "0 \<le> ?e" using pow2_less_cancel by fastforce
  have x53: "?x \<le> pow2 53"
  proof -
    have "?x \<le> of_int (2 ^ 53)" using assms by (simp only: of_int_le_iff)
    then show ?thesis by (simp add: pow2_def)
  qed
  with lo have "pow2 ?e \<le> pow2 53" by simp
  then have e53: "?e \<le> 53" by (rule pow2_le_cancel)
  from e0 have e: "max ?e (- 1022) = ?e" by simp
  have "\<exists>k. ?x / pow2 (?e - 52) = of_int k"
  proof (cases "?e \<le> 52")
    case True
    then have "pow2 (- (?e - 52)) = of_int (2 ^ nat (52 - ?e))"
      by (simp add: pow2_def)
    then have "?x / pow2 (?e - 52) = of_int (n * 2 ^ nat (52 - ?e))"
      by (simp only: divide_pow2 of_int_mult)
    then show ?thesis ..
  next
    case False
    with e53 have e: "?e = 53" by simp
    with lo x53 have x: "?x = pow2 53" by simp
    have u: "pow2 (?e - 52) = pow2 1" by (simp only: e) simp
    have "?x / pow2 (?e - 52) = ?x / pow2 1" by (simp only: u)
    also have "\<dots> = pow2 53 / pow2 1" by (simp only: x)
    also have "\<dots> = of_int (2 ^ 52)" by (simp add: pow2_def)
    finally show ?thesis ..
  qed
  then obtain k where "?x / pow2 (max ?e (- 1022) - 52) = of_int k"
    by (auto simp: e)
  then have r: "rounded ?x = ?x" by (rule rounded_multiple)
  have "?x < 2 ^ 1024"
  proof -
    have "?x \<le> pow2 53" by (rule x53)
    also have "\<dots> < pow2 1024" by (rule pow2_strict_mono) simp
    finally show ?thesis by (simp add: pow2_def)
  qed
  with pos show ?thesis
    by (simp add: round_double_pos r)
qed

lemma round_double_nat: "n \<le> 2 ^ 53 \<Longrightarrow> round_double (of_nat n) = Fin (of_nat n)"
proof (cases "n = 0")
  case True
  then show ?thesis by (simp add: round_double_def)
next
  case False
  assume "n \<le> 2 ^ 53"
  then have "int n \<le> 2 ^ 53"
    by (metis of_nat_le_iff of_nat_numeral of_nat_power)
  moreover from False have "1 \<le> int n" by simp
  ultimately have "round_double (of_int (int n)) = Fin (of_int (int n))"
    by (rule round_double_int [rotated])
  then show ?thesis by simp
qed

lemma round_double_big:
  assumes "2 ^ 53 \<le> x"
  shows "round_double x = PInf \<or> (\<exists>y. round_double x = Fin y \<and> 2 ^ 53 \<le> y)"
proof -
  from assms have pos: "0 < x"
    by (rule less_le_trans [rotated]) simp
  have "pow2 53 \<le> x" using assms by (simp add: pow2_def)
  with floor_log2_bounds(2) [OF pos] have "pow2 53 < pow2 (floor_log2 x + 1)" by simp
  then have e: "53 \<le> floor_log2 x" using pow2_less_cancel by fastforce
  then have "pow2 53 \<le> pow2 (floor_log2 x)" by (rule pow2_mono)
  also have "\<dots> \<le> rounded x" using pos e by (intro rounded_lower) simp_all
  finally have "2 ^ 53 \<le> rounded x" by (simp add: pow2_def)
  then show ?thesis
    using pos by (auto simp: round_double_pos)
qed

lemma round_double_overflow:
  assumes "2 ^ 1024 \<le> x"
  shows "round_double x = PInf"
proof -
  from assms have pos: "0 < x"
    by (rule less_le_trans [rotated]) simp
  have "pow2 1024 \<le> x" using assms by (simp add: pow2_def)
  with floor_log2_bounds(2) [OF pos] have "pow2 1024 < pow2 (floor_log2 x + 1)" by simp
  then have e: "1024 \<le> floor_log2 x" using pow2_less_cancel by fastforce
  then have "pow2 1024 \<le> pow2 (floor_log2 x)" by (rule pow2_mono)
  also have "\<dots> \<le> rounded x" using pos e by (intro rounded_lower) simp_all
  finally have "2 ^ 1024 \<le> rounded x" by (simp add: pow2_def)
  then show ?thesis
    using pos by (simp add: round_double_pos)
qed

lemma ceil_round_quotient:
  fixes n l :: nat
  assumes n: "0 < n" "n < 2 ^ 32" and l: "0 < l" "l \<le> 2 ^ 53"
  shows "js_ceil (round_double (of_nat n / of_nat l)) = Fin (of_int \<lceil>(of_nat n :: rat) / of_nat l\<rceil>)"
proof -
  define q :: rat where "q = of_nat n / of_nat l"
  define e where "e = floor_log2 q"
  define S :: int where "S = 2 ^ nat (52 - e)"
  define k where "k = \<lceil>q\<rceil>"
  let ?u = "pow2 (e - 52)"
  have pos: "0 < q" using n l by (simp add: q_def)
  note lo = floor_log2_bounds(1) [OF pos, folded e_def]
    and hi = floor_log2_bounds(2) [OF pos, folded e_def]
  have ln: "(of_nat l :: rat) \<le> 2 ^ 53" and nn: "(of_nat n :: rat) < 2 ^ 32"
    using l n by (metis of_nat_le_iff of_nat_numeral of_nat_power,
        metis of_nat_less_iff of_nat_numeral of_nat_power)
  have n1: "(1 :: rat) \<le> of_nat n" using n by simp
  have l1: "(1 :: rat) \<le> of_nat l" using l by simp
  have q_ge: "pow2 (- 53) \<le> q"
  proof -
    have "pow2 (- 53) = 1 / 2 ^ 53" by (simp add: pow2_def)
    also have "\<dots> \<le> 1 / of_nat l" using ln l by (simp add: frac_le)
    also have "\<dots> \<le> q" unfolding q_def using n1 l by (simp add: divide_right_mono)
    finally show ?thesis .
  qed
  with hi have "pow2 (- 53) < pow2 (e + 1)" by simp
  then have e_lo: "- 53 \<le> e" using pow2_less_cancel by fastforce
  have q_le: "q \<le> of_nat n"
    unfolding q_def using l1 n1 by (simp add: field_simps mult_le_cancel_left1)
  have "pow2 e < pow2 32"
  proof -
    have "pow2 e \<le> q" by (rule lo)
    also have "q < 2 ^ 32" using q_le nn by simp
    finally show ?thesis by (simp add: pow2_def)
  qed
  then have e_hi: "e < 32" by (rule pow2_less_cancel)
  from e_lo have e_max: "max e (- 1022) = e" by simp
  have neg: "- (e - 52) = 52 - e" by simp
  have S: "pow2 (52 - e) = of_int S"
    using e_hi by (simp add: pow2_def S_def)
  have S_pos: "0 < S" by (simp add: S_def)
  have uS: "of_int S * ?u = 1"
    using pow2_inverse [of "e - 52"] by (simp only: neg S mult.commute)
  have m: "q / ?u = q * of_int S"
    by (simp only: divide_pow2 neg S)
  have r: "rounded q = of_int (round_half_even (q * of_int S)) * ?u"
    unfolding rounded_def e_def [symmetric] e_max m ..
  have upos: "0 < ?u" by (rule pow2_pos)
  have kq: "q \<le> of_int k" by (simp add: k_def)
  have k1: "1 \<le> k" using pos by (simp add: k_def)
  have upper: "rounded q \<le> of_int k"
  proof -
    have "q * of_int S \<le> of_int (k * S)"
      using kq S_pos by (simp add: mult_right_mono)
    then have "round_half_even (q * of_int S) \<le> k * S" by (rule rhe_upper)
    then have "(of_int (round_half_even (q * of_int S)) :: rat) \<le> of_int (k * S)"
      by (simp only: of_int_le_iff)
    then have "of_int (round_half_even (q * of_int S)) * ?u \<le> of_int (k * S) * ?u"
      using upos by (simp only: mult_le_cancel_right_pos)
    also have "of_int (k * S) * ?u = of_int k * (of_int S * ?u)" by simp
    also have "\<dots> = of_int k" by (simp only: uS mult_1_right)
    finally show ?thesis by (simp only: r)
  qed
  have gap: "1 / of_nat l \<le> q - of_int (k - 1)"
  proof -
    have "k - 1 < \<lceil>q\<rceil>" by (simp add: k_def)
    then have "of_int (k - 1) < q" by (simp only: less_ceiling_iff)
    then have "of_int (k - 1) * of_nat l < (of_nat n :: rat)"
      using l by (simp add: q_def pos_less_divide_eq)
    then have "(of_int ((k - 1) * int l) :: rat) < of_int (int n)" by simp
    then have "(k - 1) * int l < int n" by (simp only: of_int_less_iff)
    then have "(k - 1) * int l + 1 \<le> int n" by simp
    then have "(of_int ((k - 1) * int l + 1) :: rat) \<le> of_int (int n)" by (simp only: of_int_le_iff)
    then have "of_int (k - 1) * of_nat l + 1 \<le> (of_nat n :: rat)" by simp
    then have "(of_int (k - 1) * of_nat l + 1) / of_nat l \<le> (of_nat n :: rat) / of_nat l"
      using l by (simp add: divide_right_mono)
    then have "of_int (k - 1) + 1 / of_nat l \<le> q"
      using l by (simp add: q_def add_divide_distrib)
    then show ?thesis by simp
  qed
  have l_small: "(of_nat l :: rat) < 2 * of_int S"
  proof -
    have "of_nat l * pow2 e \<le> (of_nat n :: rat)"
      using lo l by (simp add: q_def pos_le_divide_eq mult.commute)
    then have "of_nat l * pow2 e * pow2 (- e) \<le> of_nat n * pow2 (- e)"
      using pow2_pos [of "- e"] by (simp only: mult_le_cancel_right_pos)
    then have "of_nat l \<le> of_nat n * pow2 (- e)"
      using pow2_inverse [of e] by (simp add: mult.assoc)
    also have "\<dots> < 2 ^ 32 * pow2 (- e)"
      using nn pow2_pos [of "- e"] by (simp only: mult_less_cancel_right_pos)
    also have "\<dots> \<le> 2 * (pow2 52 * pow2 (- e))"
      using pow2_pos [of "- e"] by (simp add: pow2_def)
    also have "pow2 52 * pow2 (- e) = of_int S"
      using pow2_add [of 52 "- e"] S by simp
    finally show ?thesis .
  qed
  have lower: "of_int (k - 1) < rounded q"
  proof -
    have "1 / 2 < of_int S / (of_nat l :: rat)"
      using l_small l by (simp add: pos_less_divide_eq)
    also have "\<dots> = 1 / of_nat l * of_int S" by simp
    also have "\<dots> \<le> (q - of_int (k - 1)) * of_int S"
      using gap S_pos by (simp only: mult_le_cancel_right_pos of_int_0_less_iff)
    finally have "of_int (k - 1) * of_int S < q * of_int S - 1 / 2"
      by (simp add: algebra_simps)
    also have "\<dots> \<le> of_int (round_half_even (q * of_int S))" by (rule rhe_near)
    finally have "of_int (k - 1) * of_int S * ?u < of_int (round_half_even (q * of_int S)) * ?u"
      using upos by (simp only: mult_less_cancel_right_pos)
    moreover have "of_int (k - 1) * of_int S * ?u = of_int (k - 1) * (of_int S * ?u)" by simp
    ultimately show ?thesis by (simp only: r uS mult_1_right)
  qed
  have ceil: "\<lceil>rounded q\<rceil> = k"
    using lower upper by (intro ceiling_unique) simp_all
  have rpos: "0 < rounded q"
  proof -
    have "(0 :: rat) \<le> of_int (k - 1)" using k1 by simp
    with lower show ?thesis by simp
  qed
  have small: "rounded q < 2 ^ 1024"
  proof -
    have "rounded q \<le> of_int k" by (rule upper)
    also have "of_int k \<le> (of_nat n :: rat)"
    proof -
      have "k \<le> int n" unfolding k_def using q_le by (simp add: ceiling_le_iff)
      then have "(of_int k :: rat) \<le> of_int (int n)" by (simp only: of_int_le_iff)
      then show ?thesis by simp
    qed
    also have "(of_nat n :: rat) < 2 ^ 32" by (rule nn)
    also have "(2 :: rat) ^ 32 < 2 ^ 1024" by simp
    finally show ?thesis .
  qed
  have "round_double q = Fin (rounded q)"
    using pos rpos small by (simp add: round_double_pos)
  then have "js_ceil (round_double q) = Fin (of_int k)"
    using rpos ceil by simp
  then show ?thesis by (simp add: q_def k_def)
qed

lemma round_double_Fin_bound: "0 < x \<Longrightarrow> round_double x = Fin y \<Longrightarrow> y < 2 ^ 1024"
  by (auto simp: round_double_pos split: if_splits)

lemma at_least_mono: "at_least b x \<Longrightarrow> c \<le> b \<Longrightarrow> at_least c x"
  by (auto simp: at_least_def split: jsnum.splits)

lemma round_at_least:
  assumes k: "- 1022 \<le> k" and x: "pow2 k \<le> x"
  shows "at_least (pow2 k) (round_double x)"
proof -
  from x pow2_pos [of k] have pos: "0 < x" by simp
  from x floor_log2_bounds(2) [OF pos] have "pow2 k < pow2 (floor_log2 x + 1)" by simp
  then have e: "k \<le> floor_log2 x" using pow2_less_cancel by fastforce
  then have "pow2 k \<le> pow2 (floor_log2 x)" by (rule pow2_mono)
  also have "\<dots> \<le> rounded x" using pos e k by (intro rounded_lower) simp_all
  finally have r: "pow2 k \<le> rounded x" .
  with pow2_pos [of k] have "rounded x \<noteq> 0" by simp
  with r show ?thesis
    using pos by (simp add: round_double_pos at_least_def)
qed

lemma round_nat_at_least:
  assumes "2 ^ k \<le> n"
  shows "at_least (2 ^ k) (round_double (of_nat n))"
proof -
  have p: "pow2 (int k) = 2 ^ k" by (simp add: pow2_def)
  have "(2 :: rat) ^ k \<le> of_nat n"
    using assms by (metis of_nat_le_iff of_nat_numeral of_nat_power)
  then have "pow2 (int k) \<le> of_nat n" by (simp only: p)
  then have "at_least (pow2 (int k)) (round_double (of_nat n))"
    by (intro round_at_least) simp_all
  then show ?thesis by (simp only: p)
qed

lemma round_double_finite:
  assumes pos: "0 < x" and hi: "x \<le> 2 ^ 1023"
  shows "is_finite (round_double x)"
proof -
  define e where "e = max (floor_log2 x) (- 1022)"
  define S :: int where "S = 2 ^ nat (1075 - e)"
  define T :: rat where "T = 2 ^ 1023"
  let ?u = "pow2 (e - 52)"
  have T: "pow2 1023 = T" and T': "T < 2 ^ 1024" and T'': "T < pow2 1024"
    by (simp_all add: pow2_def T_def)
  have xT: "x \<le> T" using hi by (simp only: T_def)
  have "pow2 (floor_log2 x) \<le> x" by (rule floor_log2_bounds(1) [OF pos])
  also have "x < pow2 1024" using xT T'' by (rule le_less_trans)
  finally have "floor_log2 x < 1024" by (rule pow2_less_cancel)
  then have e_hi: "e \<le> 1023" by (simp add: e_def)
  have upos: "0 < ?u" by (rule pow2_pos)
  have S: "pow2 (1075 - e) = of_int S"
    using e_hi by (simp add: pow2_def S_def)
  have "1075 - e + (e - 52) = 1023" by simp
  then have "pow2 (1075 - e) * ?u = pow2 1023" by (simp only: pow2_add [symmetric])
  then have uS: "of_int S * ?u = T" by (simp only: S T)
  have "x / ?u \<le> T / ?u"
    using xT upos by (rule divide_right_mono [OF _ less_imp_le])
  also have "T / ?u = of_int S"
    using upos by (simp add: uS [symmetric])
  finally have "round_half_even (x / ?u) \<le> S" by (rule rhe_upper)
  then have "(of_int (round_half_even (x / ?u)) :: rat) \<le> of_int S"
    by (simp only: of_int_le_iff)
  then have "of_int (round_half_even (x / ?u)) * ?u \<le> of_int S * ?u"
    using upos by (simp only: mult_le_cancel_right_pos)
  then have "rounded x \<le> T"
    by (simp only: rounded_def e_def [symmetric] uS)
  then have "rounded x < 2 ^ 1024" using T' by (rule le_less_trans)
  then show ?thesis
    using pos by (simp add: round_double_pos)
qed

subsection \<open>The arithmetic of the handler\<close>

text \<open>
  A \<open>skip\<close> of at least \<open>2 ^ 32\<close> is beyond every array, so the rounding of a large \<open>skip\<close>
  does not show in the window; a small one is exact.
\<close>

lemma index_at_least:
  assumes "at_least (2 ^ 32) x" and "len < 2 ^ 32"
  shows "relative_index len x = len"
proof (cases x)
  case (Fin q)
  with assms(1) have q: "2 ^ 32 \<le> q" by (simp add: at_least_def)
  then have "(2 ^ 32 :: int) \<le> \<lfloor>q\<rfloor>" by (simp add: le_floor_iff)
  moreover have "int len < 2 ^ 32" using assms(2) by (metis of_nat_less_iff of_nat_numeral of_nat_power)
  ultimately have "len \<le> nat \<lfloor>q\<rfloor>" by linarith
  moreover have "\<not> q < 0" using q by simp
  moreover have "\<not> \<lfloor>q\<rfloor> < 0" using q by simp
  ultimately show ?thesis
    by (simp add: relative_index_def Fin Let_def)
qed (use assms in \<open>simp_all add: at_least_def relative_index_def\<close>)

lemma index_round:
  assumes "len < 2 ^ 32"
  shows "relative_index len (round_double (of_nat m)) = min m len"
proof (cases "m \<le> 2 ^ 53")
  case True
  then show ?thesis
    by (simp add: round_double_nat relative_index_def)
next
  case False
  then have "2 ^ 53 \<le> m" by simp
  then have "at_least (2 ^ 53) (round_double (of_nat m))" by (rule round_nat_at_least)
  then have "at_least (2 ^ 32) (round_double (of_nat m))" by (rule at_least_mono) simp
  then have "relative_index len (round_double (of_nat m)) = len"
    using assms by (rule index_at_least)
  moreover have "len \<le> m" using assms False by simp
  ultimately show ?thesis by simp
qed

lemma round_pow_at_least:
  assumes "2 ^ k \<le> x"
  shows "at_least (2 ^ k) (round_double x)"
proof -
  have p: "pow2 (int k) = 2 ^ k" by (simp add: pow2_def)
  from assms have "pow2 (int k) \<le> x" by (simp only: p)
  then have "at_least (pow2 (int k)) (round_double x)"
    by (intro round_at_least) simp_all
  then show ?thesis by (simp only: p)
qed

lemma read_small: "n \<le> 2 ^ 53 \<Longrightarrow> round_double (of_nat n) = Fin (of_nat n)"
  by (rule round_double_nat)

lemma read_large:
  assumes "2 ^ 53 < n"
  shows "at_least (2 ^ 53) (round_double (of_nat n))"
  using assms by (intro round_nat_at_least) simp

lemma read_positive:
  assumes "0 < n" and "is_finite (round_double (of_nat n))"
  obtains q where "round_double (of_nat n) = Fin q" and "1 \<le> q" and "q < 2 ^ 1024"
    and "n \<le> 2 ^ 53 \<Longrightarrow> q = of_nat n" and "2 ^ 53 < n \<Longrightarrow> 2 ^ 53 \<le> q"
proof -
  from assms(1) have "2 ^ 0 \<le> n" by simp
  then have "at_least (2 ^ 0) (round_double (of_nat n))" by (rule round_nat_at_least)
  with assms(2) obtain q where q: "round_double (of_nat n) = Fin q" and q1: "1 \<le> q"
    by (cases "round_double (of_nat n)") (simp_all add: at_least_def)
  have pos: "(0 :: rat) < of_nat n" using assms(1) by simp
  from round_double_Fin_bound [OF pos q] have hi: "q < 2 ^ 1024" .
  have small: "q = of_nat n" if "n \<le> 2 ^ 53"
    using read_small [OF that] q by simp
  have large: "2 ^ 53 \<le> q" if "2 ^ 53 < n"
    using read_large [OF that] q by (simp add: at_least_def)
  from q q1 hi small large show thesis by (rule that)
qed

lemma sub_one_small:
  assumes "0 < p" and "p \<le> 2 ^ 53"
  shows "js_sub (Fin (of_nat p)) (Fin 1) = Fin (of_nat (p - 1))"
proof (cases "p = 1")
  case True
  then show ?thesis by (simp add: js_sub_def js_add_def signed_zero_def)
next
  case False
  with assms(1) have p: "1 < p" by simp
  then have eq: "(of_nat p :: rat) + - 1 = of_nat (p - 1)" by (simp add: of_nat_diff)
  have ne: "(of_nat (p - 1) :: rat) \<noteq> 0" using p by simp
  have "p - 1 \<le> 2 ^ 53" using assms(2) by simp
  then have "round_double (of_nat (p - 1)) = Fin (of_nat (p - 1))" by (rule round_double_nat)
  then show ?thesis
    using ne by (simp add: js_sub_def js_add_def eq)
qed

lemma sub_one_large:
  assumes "at_least (2 ^ 53) x"
  shows "at_least (2 ^ 52) (js_sub x (Fin 1))"
proof (cases x)
  case (Fin q)
  with assms have q: "2 ^ 53 \<le> q" by (simp add: at_least_def)
  then have ne: "q + - 1 \<noteq> 0" by simp
  from q have "2 ^ 52 \<le> q + - 1" by simp
  then have "at_least (2 ^ 52) (round_double (q + - 1))" by (rule round_pow_at_least)
  then show ?thesis
    using ne by (simp add: js_sub_def js_add_def Fin)
qed (use assms in \<open>simp_all add: at_least_def js_sub_def js_add_def\<close>)

lemma mul_at_least:
  assumes x: "at_least (2 ^ i) x" and y: "at_least (2 ^ j) y"
  shows "at_least (2 ^ (i + j)) (js_mul x y)"
proof -
  have inf: "at_least b PInf" for b by (simp add: at_least_def)
  consider (inf) "x = PInf \<or> y = PInf" | (fin) a b where "x = Fin a" "y = Fin b"
    using x y by (cases x; cases y) (simp_all add: at_least_def)
  then show ?thesis
  proof cases
    case inf
    have pos: "\<And>a. (2 :: rat) ^ i \<le> a \<Longrightarrow> 0 < a" "\<And>a. (2 :: rat) ^ j \<le> a \<Longrightarrow> 0 < a"
      by (rule less_le_trans [rotated], assumption, simp)+
    from inf x y have "js_mul x y = PInf"
      by (cases x; cases y)
        (auto simp: at_least_def js_mul_def signed_infinity_def dest: pos)
    then show ?thesis by (simp add: at_least_def)
  next
    case fin
    with x y have a: "2 ^ i \<le> a" and b: "2 ^ j \<le> b" by (simp_all add: at_least_def)
    have a0: "0 < a" by (rule less_le_trans [OF _ a]) simp
    have "(2 :: rat) ^ (i + j) = 2 ^ i * 2 ^ j" by (simp add: power_add)
    also have "\<dots> \<le> a * b"
      using a b by (intro mult_mono) (simp_all add: a0 less_imp_le)
    finally have ab: "2 ^ (i + j) \<le> a * b" .
    then have ne: "a * b \<noteq> 0"
      by (metis less_le_trans not_less_iff_gr_or_eq zero_less_numeral zero_less_power)
    from ab have "at_least (2 ^ (i + j)) (round_double (a * b))" by (rule round_pow_at_least)
    then show ?thesis
      using ne by (simp add: js_mul_def fin)
  qed
qed

lemma mul_nat: "js_mul (Fin (of_nat a)) (Fin (of_nat b)) = round_double (of_nat (a * b))"
  by (simp add: js_mul_def signed_zero_def round_double_def)

lemma nat_below:
  assumes "len < (2 :: nat) ^ 32" and "2 ^ 53 \<le> m"
  shows "len < (m :: nat)"
proof -
  have "(2 :: nat) ^ 32 < 2 ^ 53" by simp
  with assms show ?thesis by linarith
qed

lemma relative_index_nat: "relative_index len (Fin (of_nat k)) = min k len"
  by (simp add: relative_index_def)

lemma skip_index:
  assumes p: "0 < p" and l: "0 < l" and finite: "is_finite (round_double (of_nat l))"
    and len: "len < 2 ^ 32"
  shows "relative_index len (js_mul (js_sub (round_double (of_nat p)) (Fin 1)) (round_double (of_nat l)))
          = min ((p - 1) * l) len"
proof -
  from l finite obtain q where q: "round_double (of_nat l) = Fin q" and q1: "1 \<le> q"
    and small: "l \<le> 2 ^ 53 \<Longrightarrow> q = of_nat l" and large: "2 ^ 53 < l \<Longrightarrow> 2 ^ 53 \<le> q"
    by (rule read_positive) blast
  have one: "at_least (2 ^ 0) (Fin q)" using q1 by (simp add: at_least_def)
  have beyond: "relative_index len x = min ((p - 1) * l) len"
    if x: "at_least (2 ^ 32) x" and m: "2 ^ 53 \<le> (p - 1) * l" for x
  proof -
    from x len have "relative_index len x = len" by (rule index_at_least)
    moreover from len m have "len < (p - 1) * l" by (rule nat_below)
    ultimately show ?thesis by simp
  qed
  show ?thesis
  proof (cases "p \<le> 2 ^ 53")
    case True
    note sub = sub_one_small [OF p True]
    show ?thesis
    proof (cases "l \<le> 2 ^ 53")
      case True
      with small have "q = of_nat l" by simp
      then show ?thesis
        unfolding read_small [OF \<open>p \<le> 2 ^ 53\<close>] sub q
        by (simp only: mul_nat index_round [OF len])
    next
      case False
      then have big: "2 ^ 53 \<le> q" using large by simp
      show ?thesis
      proof (cases "p = 1")
        case True
        have "0 < q" using q1 by simp
        then have "js_mul (Fin 0) (Fin q) = Fin 0"
          by (simp add: js_mul_def signed_zero_def)
        then show ?thesis
          unfolding read_small [OF \<open>p \<le> 2 ^ 53\<close>] sub q using True
          by (simp add: relative_index_def)
      next
        case False
        with p have p1: "1 \<le> p - 1" by simp
        then have "(1 :: rat) \<le> of_nat (p - 1)" by (metis of_nat_1 of_nat_le_iff)
        then have "at_least (2 ^ 0) (Fin (of_nat (p - 1)))" by (simp add: at_least_def)
        moreover have "at_least (2 ^ 53) (Fin q)" using big by (simp add: at_least_def)
        ultimately have "at_least (2 ^ (0 + 53)) (js_mul (Fin (of_nat (p - 1))) (Fin q))"
          by (rule mul_at_least)
        then have x: "at_least (2 ^ 32) (js_mul (Fin (of_nat (p - 1))) (Fin q))"
          by (rule at_least_mono) simp
        have "2 ^ 53 \<le> 1 * l" using \<open>\<not> l \<le> 2 ^ 53\<close> by simp
        also have "\<dots> \<le> (p - 1) * l" using p1 by (intro mult_right_mono) simp_all
        finally have "2 ^ 53 \<le> (p - 1) * l" .
        with x show ?thesis
          unfolding read_small [OF \<open>p \<le> 2 ^ 53\<close>] sub q by (rule beyond)
      qed
    qed
  next
    case False
    then have p53: "2 ^ 53 < p" by simp
    then have "at_least (2 ^ 53) (round_double (of_nat p))" by (rule read_large)
    then have "at_least (2 ^ 52) (js_sub (round_double (of_nat p)) (Fin 1))" by (rule sub_one_large)
    from mul_at_least [OF this one]
    have "at_least (2 ^ (52 + 0)) (js_mul (js_sub (round_double (of_nat p)) (Fin 1)) (Fin q))" .
    then have x: "at_least (2 ^ 32) (js_mul (js_sub (round_double (of_nat p)) (Fin 1)) (Fin q))"
      by (rule at_least_mono) simp
    have "2 ^ 53 \<le> (p - 1) * 1" using p53 by simp
    also have "\<dots> \<le> (p - 1) * l" using l by (intro mult_left_mono) simp_all
    finally have "2 ^ 53 \<le> (p - 1) * l" .
    with x show ?thesis
      unfolding q by (rule beyond)
  qed
qed

lemma skip_exact:
  assumes p: "0 < p" and l: "0 < l" and finite: "is_finite (round_double (of_nat l))"
    and x: "(p - 1) * l < 2 ^ 32"
  shows "js_mul (js_sub (round_double (of_nat p)) (Fin 1)) (round_double (of_nat l))
          = Fin (of_nat ((p - 1) * l))"
proof -
  from l finite obtain q where q: "round_double (of_nat l) = Fin q" and q1: "1 \<le> q"
    and small: "l \<le> 2 ^ 53 \<Longrightarrow> q = of_nat l"
    by (rule read_positive) blast
  have b: "(2 :: nat) ^ 32 \<le> 2 ^ 53" by simp
  show ?thesis
  proof (cases "p = 1")
    case True
    have "0 < q" using q1 by simp
    then have "js_mul (Fin 0) (Fin q) = Fin 0"
      by (simp add: js_mul_def signed_zero_def)
    moreover have "round_double (of_nat p) = Fin 1"
      using read_small [of 1] True by simp
    moreover have "js_sub (Fin 1) (Fin 1) = Fin 0"
      by (simp add: js_sub_def js_add_def signed_zero_def)
    ultimately show ?thesis
      unfolding q using True by simp
  next
    case False
    with p have p1: "1 \<le> p - 1" by simp
    have "1 * l \<le> (p - 1) * l" using p1 by (rule mult_right_mono) simp
    then have "l \<le> (p - 1) * l" by simp
    with x have "l < 2 ^ 32" by linarith
    with b have l53: "l \<le> 2 ^ 53" by linarith
    have "(p - 1) * 1 \<le> (p - 1) * l" using l by (intro mult_left_mono) simp_all
    then have "p - 1 \<le> (p - 1) * l" by simp
    with x have "p - 1 < 2 ^ 32" by linarith
    with b have p53: "p \<le> 2 ^ 53" by linarith
    from x b have x53: "(p - 1) * l \<le> 2 ^ 53" by linarith
    from small l53 have "q = of_nat l" by simp
    then show ?thesis
      unfolding read_small [OF p53] sub_one_small [OF p p53] q
      by (simp only: mul_nat read_small [OF x53])
  qed
qed

lemma fin_index:
  assumes l: "0 < l" and finite: "is_finite (round_double (of_nat l))"
    and len: "len < 2 ^ 32" and x: "x < len"
  shows "relative_index len (js_add (Fin (of_nat x)) (round_double (of_nat l))) = min (x + l) len"
proof -
  from l finite obtain q where q: "round_double (of_nat l) = Fin q" and q1: "1 \<le> q"
    and small: "l \<le> 2 ^ 53 \<Longrightarrow> q = of_nat l" and large: "2 ^ 53 < l \<Longrightarrow> 2 ^ 53 \<le> q"
    by (rule read_positive) blast
  have x0: "(0 :: rat) \<le> of_nat x" by simp
  with q1 have ne: "of_nat x + q \<noteq> 0" by linarith
  then have add: "js_add (Fin (of_nat x)) (Fin q) = round_double (of_nat x + q)"
    by (simp add: js_add_def)
  show ?thesis
  proof (cases "l \<le> 2 ^ 53")
    case True
    with small have "of_nat x + q = of_nat (x + l)" by simp
    then show ?thesis
      unfolding q add by (simp only: index_round [OF len])
  next
    case False
    then have "2 ^ 53 \<le> q" using large by simp
    with x0 have "2 ^ 53 \<le> of_nat x + q" by linarith
    then have "at_least (2 ^ 53) (round_double (of_nat x + q))" by (rule round_pow_at_least)
    then have "at_least (2 ^ 32) (round_double (of_nat x + q))" by (rule at_least_mono) simp
    then have "relative_index len (round_double (of_nat x + q)) = len"
      using len by (rule index_at_least)
    moreover have "len < x + l"
      using False len by (intro nat_below [OF len]) simp
    ultimately show ?thesis
      unfolding q add by simp
  qed
qed

lemma window:
  assumes p: "0 < p" and l: "0 < l" and finite: "is_finite (round_double (of_nat l))"
    and len: "length items < 2 ^ 32"
  shows "js_slice items
           (js_mul (js_sub (round_double (of_nat p)) (Fin 1)) (round_double (of_nat l)))
           (js_add (js_mul (js_sub (round_double (of_nat p)) (Fin 1)) (round_double (of_nat l)))
                   (round_double (of_nat l)))
         = take l (drop ((p - 1) * l) items)"
proof (cases "(p - 1) * l < length items")
  case True
  with len have "(p - 1) * l < 2 ^ 32" by simp
  note skip = skip_exact [OF p l finite this]
  have k: "relative_index (length items) (Fin (of_nat ((p - 1) * l))) = (p - 1) * l"
    using True by (simp only: relative_index_nat min_absorb1 less_imp_le)
  have "min ((p - 1) * l + l) (length items) - (p - 1) * l
      = min l (length (drop ((p - 1) * l) items))"
    using True by simp
  moreover have "take (min l (length (drop ((p - 1) * l) items))) (drop ((p - 1) * l) items)
      = take l (drop ((p - 1) * l) items)"
    by (cases "l \<le> length (drop ((p - 1) * l) items)") (simp_all add: min_def)
  ultimately show ?thesis
    unfolding skip js_slice_def Let_def k fin_index [OF l finite len True]
    by (simp only:)
next
  case False
  then have "min ((p - 1) * l) (length items) = length items" by simp
  then have "relative_index (length items)
      (js_mul (js_sub (round_double (of_nat p)) (Fin 1)) (round_double (of_nat l))) = length items"
    by (simp only: skip_index [OF p l finite len])
  then show ?thesis
    unfolding js_slice_def Let_def using False by simp
qed

lemma ceil_round_small:
  assumes lo: "pow2 (- 1024) \<le> x" and hi: "x \<le> 1"
  shows "js_ceil (round_double x) = Fin 1"
proof -
  define e where "e = max (floor_log2 x) (- 1022)"
  define S :: int where "S = 2 ^ nat (52 - e)"
  let ?u = "pow2 (e - 52)"
  from lo pow2_pos [of "- 1024"] have pos: "0 < x" by simp
  have "pow2 (floor_log2 x) \<le> x" by (rule floor_log2_bounds(1) [OF pos])
  also have "x < pow2 1" using hi by (simp add: pow2_def)
  finally have "floor_log2 x < 1" by (rule pow2_less_cancel)
  then have e_hi: "e \<le> 0" and e_lo: "- 1022 \<le> e" by (simp_all add: e_def)
  have upos: "0 < ?u" by (rule pow2_pos)
  have neg: "- (e - 52) = 52 - e" by simp
  have S: "pow2 (52 - e) = of_int S"
    using e_hi by (simp add: pow2_def S_def)
  have uS: "of_int S * ?u = 1"
    using pow2_inverse [of "e - 52"] by (simp only: neg S mult.commute)
  have m: "x / ?u = x * of_int S"
    by (simp only: divide_pow2 neg S)
  have S_pos: "(0 :: rat) < of_int S" by (simp add: S_def)
  have r: "rounded x = of_int (round_half_even (x * of_int S)) * ?u"
    unfolding rounded_def e_def [symmetric] m ..
  have upper: "rounded x \<le> 1"
  proof -
    have "x * of_int S \<le> 1 * of_int S"
      using hi S_pos by (simp only: mult_le_cancel_right_pos)
    then have "x * of_int S \<le> of_int S" by simp
    then have "round_half_even (x * of_int S) \<le> S" by (rule rhe_upper)
    then have "(of_int (round_half_even (x * of_int S)) :: rat) \<le> of_int S"
      by (simp only: of_int_le_iff)
    then have "of_int (round_half_even (x * of_int S)) * ?u \<le> of_int S * ?u"
      using upos by (simp only: mult_le_cancel_right_pos)
    then show ?thesis by (simp only: r uS)
  qed
  have lower: "0 < rounded x"
  proof -
    have "pow2 0 \<le> x * pow2 (52 - e)"
    proof (cases "- 1022 \<le> floor_log2 x")
      case True
      then have e: "e = floor_log2 x" by (simp add: e_def)
      have "pow2 0 \<le> pow2 (e + (52 - e))" by (intro pow2_mono) simp
      also have "\<dots> = pow2 e * pow2 (52 - e)" by (rule pow2_add)
      also have "\<dots> \<le> x * pow2 (52 - e)"
        using floor_log2_bounds(1) [OF pos] pow2_pos [of "52 - e"]
        by (simp only: e mult_le_cancel_right_pos)
      finally show ?thesis .
    next
      case False
      then have e: "e = - 1022" by (simp add: e_def)
      have "pow2 0 \<le> pow2 (- 1024 + (52 - e))" by (intro pow2_mono) (simp add: e)
      also have "\<dots> = pow2 (- 1024) * pow2 (52 - e)" by (rule pow2_add)
      also have "\<dots> \<le> x * pow2 (52 - e)"
        using lo pow2_pos [of "52 - e"] by (simp only: mult_le_cancel_right_pos)
      finally show ?thesis .
    qed
    moreover have "pow2 0 = 1" by (simp add: pow2_def)
    ultimately have "of_int 1 \<le> x * of_int S"
      by (simp only: S of_int_1)
    then have "1 \<le> round_half_even (x * of_int S)" by (rule rhe_lower)
    then have "(0 :: rat) < of_int (round_half_even (x * of_int S))" by simp
    with upos show ?thesis by (simp only: r mult_pos_pos)
  qed
  have small: "rounded x < 2 ^ 1024"
    by (rule le_less_trans [OF upper]) simp
  have "\<lceil>rounded x\<rceil> = 1"
    using lower upper by (intro ceiling_unique) simp_all
  moreover have "round_double x = Fin (rounded x)"
    using pos lower small by (simp add: round_double_pos)
  ultimately show ?thesis
    using lower by simp
qed

lemma pages:
  assumes l: "0 < l" and finite: "is_finite (round_double (of_nat l))"
    and n: "n < 2 ^ 32"
  shows "js_ceil (js_div (Fin (of_nat n)) (round_double (of_nat l)))
          = Fin (of_int \<lceil>(of_nat n :: rat) / of_nat l\<rceil>)"
proof -
  from l finite obtain q where q: "round_double (of_nat l) = Fin q" and q1: "1 \<le> q"
    and hi: "q < 2 ^ 1024"
    and small: "l \<le> 2 ^ 53 \<Longrightarrow> q = of_nat l" and large: "2 ^ 53 < l \<Longrightarrow> 2 ^ 53 \<le> q"
    by (rule read_positive) blast
  have q0: "0 < q" using q1 by simp
  show ?thesis
  proof (cases "n = 0")
    case True
    then show ?thesis
      unfolding q using q0 by (simp add: js_div_def signed_zero_def)
  next
    case False
    then have n0: "0 < n" by simp
    then have n1: "(1 :: rat) \<le> of_nat n" by simp
    have nn: "(of_nat n :: rat) < 2 ^ 32"
      using n by (metis of_nat_less_iff of_nat_numeral of_nat_power)
    have ne: "of_nat n / q \<noteq> 0" using n0 q0 by simp
    have div: "js_div (Fin (of_nat n)) (Fin q) = round_double (of_nat n / q)"
      using n0 q0 by (simp add: js_div_def)
    show ?thesis
    proof (cases "l \<le> 2 ^ 53")
      case True
      with small have "q = of_nat l" by simp
      then show ?thesis
        unfolding q div using ceil_round_quotient [OF n0 n l True] by simp
    next
      case False
      then have big: "2 ^ 53 \<le> q" and lbig: "2 ^ 53 < l" using large by simp_all
      have "of_nat n / q \<le> 2 ^ 32 / 2 ^ 53"
        using nn big q0 by (intro frac_le) simp_all
      also have "\<dots> \<le> (1 :: rat)" by simp
      finally have up: "of_nat n / q \<le> 1" .
      have "pow2 (- 1024) = 1 / 2 ^ 1024" by (simp add: pow2_def)
      also have "\<dots> \<le> of_nat n / q"
        using n1 hi q0 by (intro frac_le) simp_all
      finally have "js_ceil (round_double (of_nat n / q)) = Fin 1"
        using up by (rule ceil_round_small)
      moreover have "\<lceil>(of_nat n :: rat) / of_nat l\<rceil> = 1"
      proof (rule ceiling_unique)
        show "of_int 1 - 1 < (of_nat n :: rat) / of_nat l" using n0 l by simp
        have "(of_nat n :: rat) < of_nat l"
        proof -
          have "n < l" using n lbig by (intro nat_below [OF n]) simp
          then show ?thesis by (simp only: of_nat_less_iff)
        qed
        then show "(of_nat n :: rat) / of_nat l \<le> of_int 1" using l by simp
      qed
      ultimately show ?thesis
        unfolding q div by simp
    qed
  qed
qed

lemma pages_bound:
  assumes "0 < l" and "n < 2 ^ 32"
  shows "\<lceil>(of_nat n :: rat) / of_nat l\<rceil> < 2 ^ 32"
proof -
  have "(of_nat n :: rat) / of_nat l \<le> of_nat n / 1"
    using assms(1) by (intro frac_le) simp_all
  then have "\<lceil>(of_nat n :: rat) / of_nat l\<rceil> \<le> \<lceil>(of_nat n :: rat)\<rceil>"
    by (intro ceiling_mono) simp
  also have "\<dots> = int n" by simp
  also have "\<dots> < 2 ^ 32" using assms(2) by (metis of_nat_less_iff of_nat_numeral of_nat_power)
  finally show ?thesis .
qed

lemma has_next:
  assumes k: "k < 2 ^ 32"
  shows "js_lt (round_double (of_nat p)) (Fin (of_int k)) = (int p < k)"
proof (cases "p \<le> 2 ^ 53")
  case True
  have "((of_nat p :: rat) < of_int k) = (int p < k)"
    by (metis of_int_less_iff of_int_of_nat_eq)
  then show ?thesis
    unfolding read_small [OF True] by (simp add: js_lt_def)
next
  case False
  then have p: "2 ^ 53 < p" by simp
  then have "(2 :: int) ^ 53 < int p" by (metis of_nat_less_iff of_nat_numeral of_nat_power)
  with k have int: "\<not> int p < k" by simp
  have kk: "(of_int k :: rat) < 2 ^ 32" using k by (metis of_int_less_iff of_int_numeral of_int_power)
  from read_large [OF p] have "\<not> js_lt (round_double (of_nat p)) (Fin (of_int k))"
    using kk by (cases "round_double (of_nat p)") (simp_all add: at_least_def js_lt_def)
  with int show ?thesis by simp
qed

lemma has_prev: "js_gt (round_double (of_nat p)) (Fin 1) = (1 < p)"
proof (cases "p \<le> 2 ^ 53")
  case True
  show ?thesis
    unfolding read_small [OF True] by (simp add: js_gt_def js_lt_def)
next
  case False
  then have p: "2 ^ 53 < p" by simp
  then have "1 < p" by (rule less_trans [rotated]) simp
  moreover from read_large [OF p] have "js_gt (round_double (of_nat p)) (Fin 1)"
    by (cases "round_double (of_nat p)") (simp_all add: at_least_def js_gt_def js_lt_def)
  ultimately show ?thesis by simp
qed

subsection \<open>Decimal numerals\<close>

lemma digit_of_decimal: "decimal c \<Longrightarrow> digit_of c = Some (c - 48)"
  by (simp add: digit_of_def decimal_def)

lemma decimal_in_radix: "decimal c \<Longrightarrow> in_radix 10 c"
  by (auto simp: decimal_def in_radix_def digit_of_def)

lemma decimal_not_special:
  assumes "decimal c"
  shows "\<not> is_white c" "c \<noteq> 0x2D" "c \<noteq> 0x2B" "c \<noteq> 0x78" "c \<noteq> 0x58"
  using assms by (auto simp: decimal_def is_white_def)

lemma decimal_digit: "(d :: nat) < 10 \<Longrightarrow> decimal (of_char (char_of (48 + d)))"
  by (simp add: decimal_def)

lemma show_nat_decimal: "list_all decimal (utf16 (show_nat n))"
proof (induction n rule: show_nat.induct)
  case (1 n)
  show ?case
  proof (cases "n < 10")
    case True
    then show ?thesis
      by (subst show_nat.simps) (simp add: utf16_def decimal_def)
  next
    case False
    have "n mod 10 < 10" by simp
    then have "decimal (of_char (char_of (48 + n mod 10)))" by (rule decimal_digit)
    with False 1 show ?thesis
      by (subst show_nat.simps) (simp add: utf16_def)
  qed
qed

lemma show_nat_nonempty: "utf16 (show_nat n) \<noteq> []"
  by (subst show_nat.simps) (simp add: utf16_def)

lemma digits_value_snoc:
  "digits_value r (ds @ [c])
    = digits_value r ds * int r + (case digit_of c of None \<Rightarrow> 0 | Some d \<Rightarrow> int d)"
  by (simp add: digits_value_def)

lemma digits_value_show_nat: "digits_value 10 (utf16 (show_nat n)) = int n"
proof (induction n rule: show_nat.induct)
  case (1 n)
  show ?case
  proof (cases "n < 10")
    case True
    then show ?thesis
      by (subst show_nat.simps) (simp add: utf16_def digits_value_def digit_of_def)
  next
    case False
    have d: "n mod 10 < 10" by simp
    have "digit_of (of_char (char_of (48 + n mod 10))) = Some (n mod 10)"
      using digit_of_decimal [OF decimal_digit [OF d]] d by simp
    moreover have "utf16 (show_nat n)
        = utf16 (show_nat (n div 10)) @ [of_char (char_of (48 + n mod 10))]"
      using False by (subst show_nat.simps) (simp add: utf16_def)
    moreover have "int (n div 10) * 10 + int (n mod 10) = int n" by presburger
    ultimately show ?thesis
      using 1 False by (simp add: digits_value_snoc)
  qed
qed

lemma parseInt_decimal:
  assumes "ds \<noteq> []" and "list_all decimal ds"
  shows "parseInt ds = round_double (of_int (digits_value 10 ds))"
proof -
  from assms obtain c cs where s: "ds = c # cs" and c: "decimal c" and cs: "list_all decimal cs"
    by (cases ds) auto
  note sp = decimal_not_special [OF c]
  have hex: "(case c # cs of a # b # r \<Rightarrow> a = 0x30 \<and> (b = 0x78 \<or> b = 0x58) | _ \<Rightarrow> False) = False"
  proof (cases cs)
    case Nil
    then show ?thesis by simp
  next
    case (Cons b r)
    with cs have "decimal b" by simp
    from decimal_not_special(4,5) [OF this] Cons show ?thesis by simp
  qed
  have all: "takeWhile (in_radix 10) (c # cs) = c # cs"
    using c cs by (simp add: takeWhile_eq_all_conv list_all_iff decimal_in_radix)
  have zero: "round_double 0 = Fin 0" by (simp add: round_double_def)
  have "parseInt (c # cs) = (if digits_value 10 (c # cs) = 0 then Fin 0
      else round_double (of_int (digits_value 10 (c # cs))))"
    unfolding parseInt_def Let_def using sp hex all by (simp add: signed_zero_def)
  then show ?thesis
    using zero by (simp add: s)
qed

lemma parseInt_show_nat: "parseInt (utf16 (show_nat n)) = round_double (of_nat n)"
  using parseInt_decimal [OF show_nat_nonempty show_nat_decimal, of n]
  by (simp add: digits_value_show_nat)

lemma parseInt_numeral_finite:
  assumes "0 < l" and "l \<le> 2 ^ 1023"
  shows "is_finite (parseInt (utf16 (show_nat l)))"
proof -
  have "(0 :: rat) < of_nat l" using assms(1) by simp
  moreover have "(of_nat l :: rat) \<le> 2 ^ 1023"
    using assms(2) by (metis of_nat_le_iff of_nat_numeral of_nat_power)
  ultimately have "is_finite (round_double (of_nat l))" by (rule round_double_finite)
  then show ?thesis by (simp only: parseInt_show_nat)
qed

lemma show_nat_power_of_ten: "utf16 (show_nat (10 ^ n)) = 49 # replicate n 48"
proof (induction n)
  case 0
  show ?case by (subst show_nat.simps) (simp add: utf16_def)
next
  case (Suc n)
  have "\<not> (10 :: nat) ^ Suc n < 10" by simp
  then have "show_nat (10 ^ Suc n)
      = show_nat (10 ^ Suc n div 10) @ [char_of (48 + 10 ^ Suc n mod 10 :: nat)]"
    by (subst show_nat.simps) (simp only: if_False)
  then have "utf16 (show_nat (10 ^ Suc n)) = utf16 (show_nat (10 ^ n)) @ [48]"
    by (simp add: utf16_def)
  also have "\<dots> = 49 # replicate (Suc n) 48"
    by (simp add: Suc replicate_append_same)
  finally show ?case .
qed

lemma parseInt_overflow: "parseInt (utf16 (show_nat (10 ^ 309))) = PInf"
proof -
  have "(2 :: rat) ^ 1024 \<le> 10 ^ 309" by simp
  then have "round_double (10 ^ 309) = PInf" by (rule round_double_overflow)
  then show ?thesis by (simp add: parseInt_show_nat)
qed

lemma utf16_digits:
  "utf16 ''1'' = [49]" "utf16 ''2'' = [50]" "utf16 ''10'' = [49, 48]" "utf16 ''abc'' = [97, 98, 99]"
  by (simp_all add: utf16_def)

lemma read_one: "parseInt (utf16 ''1'') = Fin 1"
proof -
  have "parseInt [49] = round_double (of_int (digits_value 10 [49]))"
    by (rule parseInt_decimal) (simp_all add: decimal_def)
  also have "digits_value 10 [49] = 1" by (simp add: digits_value_def digit_of_def)
  also have "round_double (of_int 1) = Fin (of_int 1)" by (rule round_double_int) simp_all
  finally show ?thesis by (simp add: utf16_digits)
qed

lemma read_two: "parseInt (utf16 ''2'') = Fin 2"
proof -
  have "parseInt [50] = round_double (of_int (digits_value 10 [50]))"
    by (rule parseInt_decimal) (simp_all add: decimal_def)
  also have "digits_value 10 [50] = 2" by (simp add: digits_value_def digit_of_def)
  also have "round_double (of_int 2) = Fin (of_int 2)" by (rule round_double_int) simp_all
  finally show ?thesis by (simp add: utf16_digits)
qed

lemma read_ten: "parseInt (utf16 ''10'') = Fin 10"
proof -
  have "parseInt [49, 48] = round_double (of_int (digits_value 10 [49, 48]))"
    by (rule parseInt_decimal) (simp_all add: decimal_def)
  also have "digits_value 10 [49, 48] = 10" by (simp add: digits_value_def digit_of_def)
  also have "round_double (of_int 10) = Fin (of_int 10)" by (rule round_double_int) simp_all
  finally show ?thesis by (simp add: utf16_digits)
qed

lemma read_abc: "parseInt (utf16 ''abc'') = NaN"
  by (simp add: utf16_digits parseInt_def is_white_def in_radix_def digit_of_def)

section \<open>C1: the same neighbour added twice\<close>

text \<open>
  Claim C1 as stated, for every country and every valid neighbour id, fails where the pair
  is already in the relation store before the first call: the first call then adds
  nothing. With India and Nepal stored and Nepal already a neighbour of India, the first
  \<^verbatim>\<open>addNeighbors\<close> answers 400 with the message that the neighbour already exists and an
  empty added list.
\<close>

theorem addNeighbors_stored_pair_first_call:
  "fetchCountryById (Str ''id-india'') related_db = Some india
   \<and> Str ''id-nepal'' \<in> set (fetchAllCountryIds related_db)
   \<and> addNeighbors ''id-india'' (Inr [\<lparr>neighborId = ''id-nepal''\<rparr>]) related_db =
      (\<lparr>statusCode = 400, headers = Some [(''content-type'', ''application/json'')],
        body = Stringify (Obj [(''message'', Str ''Failed to add neighbors''),
          (''data'', Obj [(''neighbors'', Arr []),
            (''errors'', Arr [Str ''Neighbor with ID id-nepal already exists for this country''])])])\<rparr>,
       related_db)"
  by (simp add: addNeighbors_def fetchAllCountryIds_def fetchNeighbor_def neighbor_key_def ex_defs)

text \<open>
  Claim C1, amended: for every stored country \<open>c\<close> and every neighbour id \<open>x\<close> that is the
  id of a stored country, when the pair \<open>(c, x)\<close> is not yet in the relation store, two
  calls of \<^verbatim>\<open>addNeighbors(c, [x])\<close> in succession do this. The first answers 200, records
  \<open>x\<close> as added with no error, and appends the pair to the relation store. The second
  answers 400 with an empty added list and the one error
  \<^verbatim>\<open>Neighbor with ID <x> already exists for this country\<close>, and leaves the store as the
  first call left it; the pair is stored exactly once.
\<close>

theorem addNeighbors_twice:
  assumes country: "fetchCountryById (Str c) s = Some country"
    and valid: "Str x \<in> set (fetchAllCountryIds s)"
    and fresh: "fetchNeighbor c x s = None"
  shows "\<exists>s1.
     addNeighbors c (Inr [\<lparr>neighborId = x\<rparr>]) s =
       (\<lparr>statusCode = 200, headers = Some json_headers,
         body = Stringify (Obj [(''message'', Str ''Neighbors added successfully''),
           (''data'', Obj [(''neighbors'', Arr [Str x])]),
           (''errors'', Arr [])])\<rparr>, s1)
     \<and> s1 = s\<lparr>neighbors := neighbors s @ [[(''countryID'', Str c), (''neighborId'', Str x)]]\<rparr>
     \<and> addNeighbors c (Inr [\<lparr>neighborId = x\<rparr>]) s1 =
       (\<lparr>statusCode = 400, headers = Some json_headers,
         body = Stringify (Obj [(''message'', Str ''Failed to add neighbors''),
           (''data'', Obj [(''neighbors'', Arr []),
             (''errors'', Arr [Str (''Neighbor with ID '' @ x @ '' already exists for this country'')])])])\<rparr>,
        s1)
     \<and> length (filter (\<lambda>it. neighbor_key it = (Str c, Str x)) (neighbors s1)) = 1"
proof -
  let ?s1 = "addNeighbor c x s"
  have s1: "?s1 = s\<lparr>neighbors := neighbors s @ [[(''countryID'', Str c), (''neighborId'', Str x)]]\<rparr>"
    by (rule addNeighbor_absent [OF fresh])
  have loop1: "neighbor_loop c (fetchAllCountryIds s) [\<lparr>neighborId = x\<rparr>] [] [] s = ([], [x], ?s1)"
    using valid fresh by simp
  have country1: "fetchCountryById (Str c) ?s1 = Some country"
    using country by (simp add: fetchCountryById_def)
  have ids1: "fetchAllCountryIds ?s1 = fetchAllCountryIds s"
    by (simp add: fetchAllCountryIds_def)
  have loop2: "neighbor_loop c (fetchAllCountryIds ?s1) [\<lparr>neighborId = x\<rparr>] [] [] ?s1
      = ([''Neighbor with ID '' @ x @ '' already exists for this country''], [], ?s1)"
    using valid by (simp add: ids1 fetchNeighbor_addNeighbor_same)
  have once: "length (filter (\<lambda>it. neighbor_key it = (Str c, Str x)) (neighbors ?s1)) = 1"
    by (simp add: s1 fetchNeighbor_None_count [OF fresh])
  show ?thesis
  proof (rule exI [of _ ?s1], intro conjI)
    show "addNeighbors c (Inr [\<lparr>neighborId = x\<rparr>]) s =
       (\<lparr>statusCode = 200, headers = Some json_headers,
         body = Stringify (Obj [(''message'', Str ''Neighbors added successfully''),
           (''data'', Obj [(''neighbors'', Arr [Str x])]),
           (''errors'', Arr [])])\<rparr>, ?s1)"
      using addNeighbors_unfold [OF country loop1] by simp
    show "?s1 = s\<lparr>neighbors := neighbors s @ [[(''countryID'', Str c), (''neighborId'', Str x)]]\<rparr>"
      by (rule s1)
    show "addNeighbors c (Inr [\<lparr>neighborId = x\<rparr>]) ?s1 =
       (\<lparr>statusCode = 400, headers = Some json_headers,
         body = Stringify (Obj [(''message'', Str ''Failed to add neighbors''),
           (''data'', Obj [(''neighbors'', Arr []),
             (''errors'', Arr [Str (''Neighbor with ID '' @ x @ '' already exists for this country'')])])])\<rparr>,
        ?s1)"
      using addNeighbors_unfold [OF country1 loop2] by simp
    show "length (filter (\<lambda>it. neighbor_key it = (Str c, Str x)) (neighbors ?s1)) = 1"
      by (rule once)
  qed
qed

text \<open>The amended claim at India and Nepal, with an empty relation store.\<close>

theorem addNeighbors_twice_witness:
  "fetchCountryById (Str ''id-india'') example_db = Some india
   \<and> Str ''id-nepal'' \<in> set (fetchAllCountryIds example_db)
   \<and> fetchNeighbor ''id-india'' ''id-nepal'' example_db = None
   \<and> (\<exists>s1.
     addNeighbors ''id-india'' (Inr [\<lparr>neighborId = ''id-nepal''\<rparr>]) example_db =
       (\<lparr>statusCode = 200, headers = Some json_headers,
         body = Stringify (Obj [(''message'', Str ''Neighbors added successfully''),
           (''data'', Obj [(''neighbors'', Arr [Str ''id-nepal''])]),
           (''errors'', Arr [])])\<rparr>, s1)
     \<and> s1 = example_db\<lparr>neighbors := neighbors example_db
                @ [[(''countryID'', Str ''id-india''), (''neighborId'', Str ''id-nepal'')]]\<rparr>
     \<and> addNeighbors ''id-india'' (Inr [\<lparr>neighborId = ''id-nepal''\<rparr>]) s1 =
       (\<lparr>statusCode = 400, headers = Some json_headers,
         body = Stringify (Obj [(''message'', Str ''Failed to add neighbors''),
           (''data'', Obj [(''neighbors'', Arr []),
             (''errors'', Arr [Str (''Neighbor with ID '' @ ''id-nepal''
                                     @ '' already exists for this country'')])])])\<rparr>,
        s1)
     \<and> length (filter (\<lambda>it. neighbor_key it = (Str ''id-india'', Str ''id-nepal''))
           (neighbors s1)) = 1)"
proof -
  have country: "fetchCountryById (Str ''id-india'') example_db = Some india"
    by (simp add: ex_defs)
  have valid: "Str ''id-nepal'' \<in> set (fetchAllCountryIds example_db)"
    by (simp add: fetchAllCountryIds_def ex_defs)
  have fresh: "fetchNeighbor ''id-india'' ''id-nepal'' example_db = None"
    by (simp add: fetchNeighbor_def ex_defs)
  show ?thesis
    by (rule conjI [OF country conjI [OF valid conjI [OF fresh
          addNeighbors_twice [OF country valid fresh]]]])
qed

section \<open>C2: the result policy of addNeighbors\<close>

text \<open>
  Claim C2: for every \<^verbatim>\<open>addNeighbors\<close> call on a stored country, with \<open>errors\<close> and
  \<open>added\<close> the two arrays the loop built and the store holding exactly the additions of
  \<open>added\<close>: when no addition succeeded the answer is 400 with the accumulated errors and
  an empty added list (and the store is as before); when one did, the answer is 200 with
  the added list and the accumulated errors. In particular a single id that is not the id
  of a stored country gives 400, an empty added list and exactly one error.
\<close>

theorem addNeighbors_result_policy:
  assumes "fetchCountryById (Str c) s = Some country"
  shows "\<exists>errors added s'.
     neighbor_loop c (fetchAllCountryIds s) data [] [] s = (errors, added, s')
     \<and> s' = foldl (\<lambda>st n. addNeighbor c n st) s added
     \<and> (added = [] \<longrightarrow> addNeighbors c (Inr data) s =
          (\<lparr>statusCode = 400, headers = Some json_headers,
            body = Stringify (Obj [(''message'', Str ''Failed to add neighbors''),
              (''data'', Obj [(''neighbors'', Arr []), (''errors'', Arr (map Str errors))])])\<rparr>, s))
     \<and> (added \<noteq> [] \<longrightarrow> addNeighbors c (Inr data) s =
          (\<lparr>statusCode = 200, headers = Some json_headers,
            body = Stringify (Obj [(''message'', Str ''Neighbors added successfully''),
              (''data'', Obj [(''neighbors'', Arr (map Str added))]),
              (''errors'', Arr (map Str errors))])\<rparr>, s'))
     \<and> (Str x \<notin> set (fetchAllCountryIds s) \<longrightarrow> addNeighbors c (Inr [\<lparr>neighborId = x\<rparr>]) s =
          (\<lparr>statusCode = 400, headers = Some json_headers,
            body = Stringify (Obj [(''message'', Str ''Failed to add neighbors''),
              (''data'', Obj [(''neighbors'', Arr []),
                (''errors'', Arr [Str (''Invalid neighbor country ID: '' @ x)])])])\<rparr>, s))"
proof -
  obtain errors added s' where
    loop: "neighbor_loop c (fetchAllCountryIds s) data [] [] s = (errors, added, s')"
    by (cases "neighbor_loop c (fetchAllCountryIds s) data [] [] s") auto
  from loop_store [OF loop] have store: "s' = foldl (\<lambda>st n. addNeighbor c n st) s added"
    by simp
  note resp = addNeighbors_unfold [OF assms loop]
  have one: "Str x \<notin> set (fetchAllCountryIds s) \<Longrightarrow>
      neighbor_loop c (fetchAllCountryIds s) [\<lparr>neighborId = x\<rparr>] [] [] s
      = ([''Invalid neighbor country ID: '' @ x], [], s)"
    by simp
  show ?thesis
  proof (rule exI [of _ errors], rule exI [of _ added], rule exI [of _ s'], intro conjI impI)
    show "neighbor_loop c (fetchAllCountryIds s) data [] [] s = (errors, added, s')"
      by (rule loop)
  next
    show "s' = foldl (\<lambda>st n. addNeighbor c n st) s added"
      by (rule store)
  next
    assume "added = []"
    then show "addNeighbors c (Inr data) s =
          (\<lparr>statusCode = 400, headers = Some json_headers,
            body = Stringify (Obj [(''message'', Str ''Failed to add neighbors''),
              (''data'', Obj [(''neighbors'', Arr []), (''errors'', Arr (map Str errors))])])\<rparr>, s)"
      using resp store by simp
  next
    assume "added \<noteq> []"
    then show "addNeighbors c (Inr data) s =
          (\<lparr>statusCode = 200, headers = Some json_headers,
            body = Stringify (Obj [(''message'', Str ''Neighbors added successfully''),
              (''data'', Obj [(''neighbors'', Arr (map Str added))]),
              (''errors'', Arr (map Str errors))])\<rparr>, s')"
      using resp by simp
  next
    assume "Str x \<notin> set (fetchAllCountryIds s)"
    from addNeighbors_unfold [OF assms one [OF this]]
    show "addNeighbors c (Inr [\<lparr>neighborId = x\<rparr>]) s =
          (\<lparr>statusCode = 400, headers = Some json_headers,
            body = Stringify (Obj [(''message'', Str ''Failed to add neighbors''),
              (''data'', Obj [(''neighbors'', Arr []),
                (''errors'', Arr [Str (''Invalid neighbor country ID: '' @ x)])])])\<rparr>, s)"
      by simp
  qed
qed

text \<open>
  The policy at India, asked to add Nepal and an id no country has: one addition and one
  error, answered 200; and the unknown id alone, answered 400.
\<close>

theorem addNeighbors_result_policy_witness:
  "fetchCountryById (Str ''id-india'') example_db = Some india
   \<and> Str ''id-atlantis'' \<notin> set (fetchAllCountryIds example_db)
   \<and> addNeighbors ''id-india'' (Inr [\<lparr>neighborId = ''id-nepal''\<rparr>, \<lparr>neighborId = ''id-atlantis''\<rparr>])
        example_db =
      (\<lparr>statusCode = 200, headers = Some json_headers,
        body = Stringify (Obj [(''message'', Str ''Neighbors added successfully''),
          (''data'', Obj [(''neighbors'', Arr [Str ''id-nepal''])]),
          (''errors'', Arr [Str ''Invalid neighbor country ID: id-atlantis''])])\<rparr>,
       addNeighbor ''id-india'' ''id-nepal'' example_db)
   \<and> addNeighbors ''id-india'' (Inr [\<lparr>neighborId = ''id-atlantis''\<rparr>]) example_db =
      (\<lparr>statusCode = 400, headers = Some json_headers,
        body = Stringify (Obj [(''message'', Str ''Failed to add neighbors''),
          (''data'', Obj [(''neighbors'', Arr []),
            (''errors'', Arr [Str ''Invalid neighbor country ID: id-atlantis''])])])\<rparr>,
       example_db)"
proof -
  have country: "fetchCountryById (Str ''id-india'') example_db = Some india"
    by (simp add: ex_defs)
  have unknown: "Str ''id-atlantis'' \<notin> set (fetchAllCountryIds example_db)"
    by (simp add: fetchAllCountryIds_def ex_defs)
  have loop: "neighbor_loop ''id-india'' (fetchAllCountryIds example_db)
        [\<lparr>neighborId = ''id-nepal''\<rparr>, \<lparr>neighborId = ''id-atlantis''\<rparr>] [] [] example_db
      = ([''Invalid neighbor country ID: id-atlantis''], [''id-nepal''],
         addNeighbor ''id-india'' ''id-nepal'' example_db)"
    by (simp add: fetchAllCountryIds_def fetchNeighbor_def ex_defs)
  from addNeighbors_result_policy [OF country,
      of "[\<lparr>neighborId = ''id-nepal''\<rparr>, \<lparr>neighborId = ''id-atlantis''\<rparr>]" "''id-atlantis''"]
  obtain errors added s' where
    run: "neighbor_loop ''id-india'' (fetchAllCountryIds example_db)
        [\<lparr>neighborId = ''id-nepal''\<rparr>, \<lparr>neighborId = ''id-atlantis''\<rparr>] [] [] example_db
      = (errors, added, s')"
    and some: "added \<noteq> [] \<longrightarrow> addNeighbors ''id-india''
        (Inr [\<lparr>neighborId = ''id-nepal''\<rparr>, \<lparr>neighborId = ''id-atlantis''\<rparr>]) example_db =
          (\<lparr>statusCode = 200, headers = Some json_headers,
            body = Stringify (Obj [(''message'', Str ''Neighbors added successfully''),
              (''data'', Obj [(''neighbors'', Arr (map Str added))]),
              (''errors'', Arr (map Str errors))])\<rparr>, s')"
    and invalid: "Str ''id-atlantis'' \<notin> set (fetchAllCountryIds example_db) \<longrightarrow>
        addNeighbors ''id-india'' (Inr [\<lparr>neighborId = ''id-atlantis''\<rparr>]) example_db =
          (\<lparr>statusCode = 400, headers = Some json_headers,
            body = Stringify (Obj [(''message'', Str ''Failed to add neighbors''),
              (''data'', Obj [(''neighbors'', Arr []),
                (''errors'', Arr [Str (''Invalid neighbor country ID: '' @ ''id-atlantis'')])])])\<rparr>,
           example_db)"
    by blast
  from run [unfolded loop] have results: "errors = [''Invalid neighbor country ID: id-atlantis'']"
    "added = [''id-nepal'']" "s' = addNeighbor ''id-india'' ''id-nepal'' example_db"
    by simp_all
  from some invalid unknown
  have both: "addNeighbors ''id-india''
        (Inr [\<lparr>neighborId = ''id-nepal''\<rparr>, \<lparr>neighborId = ''id-atlantis''\<rparr>]) example_db =
      (\<lparr>statusCode = 200, headers = Some json_headers,
        body = Stringify (Obj [(''message'', Str ''Neighbors added successfully''),
          (''data'', Obj [(''neighbors'', Arr [Str ''id-nepal''])]),
          (''errors'', Arr [Str ''Invalid neighbor country ID: id-atlantis''])])\<rparr>,
       addNeighbor ''id-india'' ''id-nepal'' example_db)"
    and alone: "addNeighbors ''id-india'' (Inr [\<lparr>neighborId = ''id-atlantis''\<rparr>]) example_db =
      (\<lparr>statusCode = 400, headers = Some json_headers,
        body = Stringify (Obj [(''message'', Str ''Failed to add neighbors''),
          (''data'', Obj [(''neighbors'', Arr []),
            (''errors'', Arr [Str ''Invalid neighbor country ID: id-atlantis''])])])\<rparr>,
       example_db)"
    by (simp_all add: results)
  show ?thesis
    by (rule conjI [OF country conjI [OF unknown conjI [OF both alone]]])
qed

section \<open>C3: update of a record that is not stored\<close>

text \<open>
  Claim C3 says that \<^verbatim>\<open>update\<close> of an id that no stored record has fails with NotFound
  and writes nothing. \<^verbatim>\<open>updateCountry\<close> awaits \<^verbatim>\<open>fetchCountryById\<close> and drops the
  result; \<^verbatim>\<open>fetchCountryById\<close> returns \<^verbatim>\<open>undefined\<close> for an absent record and throws
  nothing, so the \<^verbatim>\<open>HttpError\<close> branch of \<^verbatim>\<open>handleError\<close> is never reached. What the
  handler does instead: for every id that is not stored and every payload that passes
  validation, it answers 200 and adds the payload, under that id, to the country
  collection.
\<close>

theorem updateCountry_absent_record_is_written:
  assumes absent: "fetchCountryById (Str cid) s = None"
    and passes: "validate reqBody = []"
  shows "updateCountry validate cid (Inr reqBody) s =
      (Inr \<lparr>statusCode = 200, headers = Some json_headers,
            body = Stringify (Obj (set_prop (spread reqBody) ''countryID'' (Str cid)))\<rparr>,
       s\<lparr>countries := countries s @ [set_prop (spread reqBody) ''countryID'' (Str cid)]\<rparr>)"
proof -
  let ?country = "set_prop (spread reqBody) ''countryID'' (Str cid)"
  have "country_key ?country = Str cid"
    by (simp add: country_key_def get_prop_set_prop)
  with absent have "docClient_get country_key (countries s) (country_key ?country) = None"
    by (simp add: fetchCountryById_def)
  then have "docClient_put country_key (countries s) ?country = countries s @ [?country]"
    by (rule put_absent)
  with passes show ?thesis
    by (simp add: updateCountry_def Let_def)
qed

text \<open>Bhutan is not stored; its payload has every field the schema requires.\<close>

theorem updateCountry_absent_record_is_written_witness:
  "fetchCountryById (Str ''id-bhutan'') example_db = None
   \<and> accepts_all (Obj bhutan_payload) = []
   \<and> updateCountry accepts_all ''id-bhutan'' (Inr (Obj bhutan_payload)) example_db =
      (Inr \<lparr>statusCode = 200, headers = Some [(''content-type'', ''application/json'')],
            body = Stringify (Obj (bhutan_payload @ [(''countryID'', Str ''id-bhutan'')]))\<rparr>,
       \<lparr>countries = [india, nepal, bhutan_payload @ [(''countryID'', Str ''id-bhutan'')]],
        neighbors = []\<rparr>)"
proof -
  have absent: "fetchCountryById (Str ''id-bhutan'') example_db = None"
    by (simp add: ex_defs)
  have passes: "accepts_all (Obj bhutan_payload) = []"
    by (simp add: accepts_all_def)
  have written: "updateCountry accepts_all ''id-bhutan'' (Inr (Obj bhutan_payload)) example_db =
      (Inr \<lparr>statusCode = 200, headers = Some [(''content-type'', ''application/json'')],
            body = Stringify (Obj (bhutan_payload @ [(''countryID'', Str ''id-bhutan'')]))\<rparr>,
       \<lparr>countries = [india, nepal, bhutan_payload @ [(''countryID'', Str ''id-bhutan'')]],
        neighbors = []\<rparr>)"
    using updateCountry_absent_record_is_written
      [where validate = accepts_all and reqBody = "Obj bhutan_payload", OF absent passes]
    by (simp add: example_db_def bhutan_payload_def json_headers_def)
  show ?thesis
    by (rule conjI [OF absent conjI [OF passes written]])
qed

section \<open>C4: reading a record\<close>

text \<open>
  Claim C4 says that \<^verbatim>\<open>get\<close> answers 404 for an id that no stored record has and 200
  with the record for one that is stored. \<^verbatim>\<open>getCountry\<close> has no branch for the absent
  record: for every id that is not stored it answers 200, and the body is
  \<^verbatim>\<open>JSON.stringify\<close> of \<^verbatim>\<open>undefined\<close>. For a stored id it answers 200 with the record,
  as the claim says.
\<close>

theorem getCountry_absent_record_is_200:
  assumes "fetchCountryById (Str cid) s = None"
  shows "getCountry cid s =
      Inr \<lparr>statusCode = 200, headers = Some json_headers, body = Stringify Undefined\<rparr>
   \<and> (\<forall>stored country. fetchCountryById (Str stored) s = Some country \<longrightarrow>
         getCountry stored s =
           Inr \<lparr>statusCode = 200, headers = Some json_headers, body = Stringify (Obj country)\<rparr>)"
  using assms by (simp add: getCountry_def)

text \<open>Bhutan is not stored, India is.\<close>

theorem getCountry_absent_record_is_200_witness:
  "fetchCountryById (Str ''id-bhutan'') example_db = None
   \<and> getCountry ''id-bhutan'' example_db =
      Inr \<lparr>statusCode = 200, headers = Some json_headers, body = Stringify Undefined\<rparr>
   \<and> fetchCountryById (Str ''id-india'') example_db = Some india
   \<and> getCountry ''id-india'' example_db =
      Inr \<lparr>statusCode = 200, headers = Some json_headers, body = Stringify (Obj india)\<rparr>"
proof -
  have absent: "fetchCountryById (Str ''id-bhutan'') example_db = None"
    by (simp add: ex_defs)
  have stored: "fetchCountryById (Str ''id-india'') example_db = Some india"
    by (simp add: ex_defs)
  note both = getCountry_absent_record_is_200 [OF absent]
  from both stored
  have found: "getCountry ''id-india'' example_db =
      Inr \<lparr>statusCode = 200, headers = Some json_headers, body = Stringify (Obj india)\<rparr>"
    by blast
  show ?thesis
    by (rule conjI [OF absent conjI [OF both [THEN conjunct1] conjI [OF stored found]]])
qed

section \<open>C5: deleting twice\<close>

text \<open>
  Claim C5 says that the first \<^verbatim>\<open>delete\<close> of a stored record answers 204 with an empty
  body and removes it, and that the second fails with NotFound. The first half holds. The
  second \<^verbatim>\<open>deleteCountry\<close>, on the store the first one left, finds no record and still
  answers 204, for every stored id.
\<close>

theorem deleteCountry_twice_is_204_twice:
  assumes "fetchCountryById (Str cid) s = Some country"
  shows "\<exists>s1. deleteCountry cid s = (Inr \<lparr>statusCode = 204, headers = None, body = Raw ''''\<rparr>, s1)
     \<and> fetchCountryById (Str cid) s1 = None
     \<and> deleteCountry cid s1 = (Inr \<lparr>statusCode = 204, headers = None, body = Raw ''''\<rparr>, s1)"
proof -
  let ?s1 = "s\<lparr>countries := docClient_delete country_key (countries s) (Str cid)\<rparr>"
  have first: "deleteCountry cid s = (Inr \<lparr>statusCode = 204, headers = None, body = Raw ''''\<rparr>, ?s1)"
    by (simp add: deleteCountry_def)
  have gone: "fetchCountryById (Str cid) ?s1 = None"
    by (simp add: fetchCountryById_def delete_then_get)
  then have "docClient_delete country_key (countries ?s1) (Str cid) = countries ?s1"
    unfolding fetchCountryById_def by (rule delete_absent)
  then have second: "deleteCountry cid ?s1 = (Inr \<lparr>statusCode = 204, headers = None, body = Raw ''''\<rparr>, ?s1)"
    by (simp add: deleteCountry_def)
  from first gone second show ?thesis by blast
qed

text \<open>India is deleted twice.\<close>

theorem deleteCountry_twice_is_204_twice_witness:
  "fetchCountryById (Str ''id-india'') example_db = Some india
   \<and> deleteCountry ''id-india'' example_db =
      (Inr \<lparr>statusCode = 204, headers = None, body = Raw ''''\<rparr>,
       \<lparr>countries = [nepal], neighbors = []\<rparr>)
   \<and> fetchCountryById (Str ''id-india'') \<lparr>countries = [nepal], neighbors = []\<rparr> = None
   \<and> deleteCountry ''id-india'' \<lparr>countries = [nepal], neighbors = []\<rparr> =
      (Inr \<lparr>statusCode = 204, headers = None, body = Raw ''''\<rparr>,
       \<lparr>countries = [nepal], neighbors = []\<rparr>)"
proof -
  have stored: "fetchCountryById (Str ''id-india'') example_db = Some india"
    by (simp add: ex_defs)
  have first: "deleteCountry ''id-india'' example_db =
      (Inr \<lparr>statusCode = 204, headers = None, body = Raw ''''\<rparr>,
       \<lparr>countries = [nepal], neighbors = []\<rparr>)"
    by (simp add: deleteCountry_def docClient_delete_def ex_defs)
  from deleteCountry_twice_is_204_twice [OF stored] first
  have gone: "fetchCountryById (Str ''id-india'') \<lparr>countries = [nepal], neighbors = []\<rparr> = None"
    and second: "deleteCountry ''id-india'' \<lparr>countries = [nepal], neighbors = []\<rparr> =
      (Inr \<lparr>statusCode = 204, headers = None, body = Raw ''''\<rparr>,
       \<lparr>countries = [nepal], neighbors = []\<rparr>)"
    by auto
  show ?thesis
    by (rule conjI [OF stored conjI [OF first conjI [OF gone second]]])
qed

section \<open>C6: a body that is not an array\<close>

text \<open>
  Claim C6 as stated, a 400 for a body that is not an array, fails: the error
  \<^verbatim>\<open>createCountry\<close> throws for such a body is caught by its own catch-all, which answers
  500. Here the body is a single country object.
\<close>

theorem createCountry_object_body_is_500:
  "createCountry example_v4 (Inr (Obj bhutan_payload)) example_db =
      (\<lparr>statusCode = 500, headers = Some [(''content-type'', ''application/json'')],
        body = Stringify (Obj [(''message'', Str ''Internal Server Error''),
                 (''error'', Str ''Request body should be an array of countries.'')])\<rparr>,
       example_db)
   \<and> statusCode (fst (createCountry example_v4 (Inr (Obj bhutan_payload)) example_db)) \<noteq> 400"
  by (simp add: createCountry_def internal_server_error_def json_headers_def)

text \<open>
  Claim C6, amended: for every parsed request body that is not an array,
  \<^verbatim>\<open>createCountry\<close> writes nothing and answers 500, with the message
  \<^verbatim>\<open>Internal Server Error\<close> and the error text
  \<^verbatim>\<open>Request body should be an array of countries.\<close>
\<close>

theorem createCountry_rejects_non_array:
  assumes "\<forall>xs. requestBody \<noteq> Arr xs"
  shows "createCountry v4 (Inr requestBody) s =
      (\<lparr>statusCode = 500, headers = Some json_headers,
        body = Stringify (Obj [(''message'', Str ''Internal Server Error''),
                 (''error'', Str ''Request body should be an array of countries.'')])\<rparr>,
       s)"
proof -
  from assms have "\<not> isArray requestBody"
    by (cases requestBody) simp_all
  then show ?thesis
    by (simp add: createCountry_def internal_server_error_def)
qed

text \<open>The amended claim at a body that is one country object.\<close>

theorem createCountry_rejects_non_array_witness:
  "(\<forall>xs. Obj bhutan_payload \<noteq> Arr xs)
   \<and> createCountry example_v4 (Inr (Obj bhutan_payload)) example_db =
      (\<lparr>statusCode = 500, headers = Some json_headers,
        body = Stringify (Obj [(''message'', Str ''Internal Server Error''),
                 (''error'', Str ''Request body should be an array of countries.'')])\<rparr>,
       example_db)"
proof -
  have shape: "\<forall>xs. Obj bhutan_payload \<noteq> Arr xs"
    by simp
  show ?thesis
    by (rule conjI [OF shape createCountry_rejects_non_array [OF shape]])
qed

section \<open>C7: the page envelope\<close>

text \<open>
  Claim C7 as stated, for every positive integer \<^verbatim>\<open>page\<close> and \<^verbatim>\<open>limit\<close>, fails:
  \<^verbatim>\<open>parseInt\<close> gives a double, and it reads a \<^verbatim>\<open>limit\<close> beyond the largest double as
  \<open>Infinity\<close>. For \<^verbatim>\<open>page=1\<close> and the \<^verbatim>\<open>limit\<close> \<open>10 ^ 309\<close> (the digit 1 and 309 zeros) on
  25 items the claim gives the 25 items as the window and 1 page; the handler computes
  \<open>skip\<close> as \<open>0 * Infinity\<close>, which is \<open>NaN\<close>, and answers an empty list and 0 pages,
  with \<open>per_page\<close> \<open>Infinity\<close>.
\<close>

theorem getAllCountriesPaginated_limit_overflows:
  "getAllCountriesPaginated (Some (utf16 ''1'')) (Some (utf16 (show_nat (10 ^ 309))))
       (numbered_items 25) =
     \<lparr>statusCode = 200, headers = None,
      body = Stringify (Obj [(''message'', Str ''Country list''),
        (''data'', Obj [(''list'', Arr []), (''has_next'', Bool False), (''has_prev'', Bool False),
                        (''page'', Num (Fin 1)), (''pages'', Num (Fin 0)),
                        (''per_page'', Num PInf), (''total'', Num (Fin 25))])])\<rparr>
   \<and> utf16 (show_nat (10 ^ 309)) = 49 # replicate 309 48
   \<and> length (numbered_items 25) = 25
   \<and> take (10 ^ 309) (drop ((1 - 1) * 10 ^ 309) (numbered_items 25)) = numbered_items 25
   \<and> \<lceil>(25 :: rat) / 10 ^ 309\<rceil> = 1"
proof -
  have skip: "js_mul (js_sub (Fin 1) (Fin 1)) PInf = NaN"
    by (simp add: js_mul_def js_sub_def js_add_def signed_zero_def)
  have fin: "js_add NaN PInf = NaN"
    by (simp add: js_add_def)
  have window: "js_slice (numbered_items 25) NaN NaN = []"
    by (simp add: js_slice_def relative_index_def)
  have len: "length (numbered_items 25) = 25"
    by (simp add: numbered_items_def)
  have pages: "js_ceil (js_div (Fin 25) PInf) = Fin 0"
    by (simp add: js_div_def signed_zero_def)
  have nxt: "js_lt (Fin 1) (Fin 0) = False" and prv: "js_gt (Fin 1) (Fin 1) = False"
    by (simp_all add: js_lt_def js_gt_def)
  have envelope: "getAllCountriesPaginated (Some (utf16 ''1'')) (Some (utf16 (show_nat (10 ^ 309))))
       (numbered_items 25) =
     \<lparr>statusCode = 200, headers = None,
      body = Stringify (Obj [(''message'', Str ''Country list''),
        (''data'', Obj [(''list'', Arr []), (''has_next'', Bool False), (''has_prev'', Bool False),
                        (''page'', Num (Fin 1)), (''pages'', Num (Fin 0)),
                        (''per_page'', Num PInf), (''total'', Num (Fin 25))])])\<rparr>"
    unfolding getAllCountriesPaginated_def Let_def option.case read_one parseInt_overflow
      skip fin window len of_nat_numeral pages nxt prv
    by simp
  have numeral: "utf16 (show_nat (10 ^ 309)) = 49 # replicate 309 48"
    by (rule show_nat_power_of_ten)
  have claimed: "take (10 ^ 309) (drop ((1 - 1) * 10 ^ 309) (numbered_items 25)) = numbered_items 25"
  proof -
    have "(25 :: nat) \<le> 10 ^ 309" by simp
    then show ?thesis by (simp add: len)
  qed
  have ceil: "\<lceil>(25 :: rat) / 10 ^ 309\<rceil> = 1"
    by (rule ceiling_unique) simp_all
  show ?thesis
    by (rule conjI [OF envelope conjI [OF numeral conjI [OF len conjI [OF claimed ceil]]]])
qed

text \<open>
  Claim C7, amended: for every filtered and sorted list \<open>items\<close> of fewer than \<open>2 ^ 32\<close>
  records (the bound of a JavaScript array), every positive integer \<open>p\<close> as \<^verbatim>\<open>page\<close>
  and every positive integer \<open>l\<close> as \<^verbatim>\<open>limit\<close> that \<^verbatim>\<open>parseInt\<close> reads as a finite number,
  the envelope has \<open>total\<close> the length of \<open>items\<close>, \<open>pages\<close> the ceiling of \<open>total / l\<close>, as
  list the window of \<open>items\<close> that starts at index \<open>(p - 1) * l\<close> and has at most \<open>l\<close>
  elements, \<open>has_next\<close> true exactly when \<open>p < pages\<close> and \<open>has_prev\<close> true exactly when
  \<open>1 < p\<close>. In particular 25 items with \<open>p = 2\<close> and \<open>l = 10\<close> give 10 items, \<open>has_next\<close>,
  \<open>has_prev\<close> and 3 pages.

  The parameters are any two strings that \<^verbatim>\<open>parseInt\<close> reads as the doubles nearest to
  \<open>p\<close> and \<open>l\<close>; the decimal numerals of \<open>p\<close> and \<open>l\<close> are such strings
  (\<open>parseInt_show_nat\<close>). Every \<open>l\<close> up to \<open>2 ^ 1023\<close> is read as a finite number
  (\<open>parseInt_numeral_finite\<close>), and \<open>p\<close> and \<open>l\<close> up to \<open>2 ^ 53\<close> are read exactly
  (\<open>round_double_nat\<close>). The fields \<open>page\<close> and \<open>per_page\<close> carry what \<^verbatim>\<open>parseInt\<close> has read.
\<close>

theorem paginated_envelope:
  assumes page: "parseInt page = round_double (of_nat p)" and p: "0 < p"
    and limit: "parseInt limit = round_double (of_nat l)" and l: "0 < l"
    and finite: "is_finite (parseInt limit)"
    and len: "length items < 2 ^ 32"
  shows "getAllCountriesPaginated (Some page) (Some limit) items =
     \<lparr>statusCode = 200, headers = None,
      body = Stringify (Obj [(''message'', Str ''Country list''),
        (''data'', Obj [(''list'', Arr (map Obj (take l (drop ((p - 1) * l) items)))),
                        (''has_next'', Bool (int p < \<lceil>(of_nat (length items) :: rat) / of_nat l\<rceil>)),
                        (''has_prev'', Bool (1 < p)),
                        (''page'', Num (parseInt page)),
                        (''pages'', Num (Fin (of_int \<lceil>(of_nat (length items) :: rat) / of_nat l\<rceil>))),
                        (''per_page'', Num (parseInt limit)),
                        (''total'', Num (Fin (of_nat (length items))))])])\<rparr>
   \<and> length (take l (drop ((p - 1) * l) items)) \<le> l
   \<and> (length items = 25 \<and> p = 2 \<and> l = 10 \<longrightarrow>
        length (take l (drop ((p - 1) * l) items)) = 10
        \<and> int p < \<lceil>(of_nat (length items) :: rat) / of_nat l\<rceil>
        \<and> 1 < p
        \<and> \<lceil>(of_nat (length items) :: rat) / of_nat l\<rceil> = 3)"
proof -
  from finite have fin: "is_finite (round_double (of_nat l))"
    by (simp only: limit)
  note w = window [OF p l fin len]
  note pg = pages [OF l fin len]
  note nxt = has_next [OF pages_bound [OF l len], of p]
  have envelope: "getAllCountriesPaginated (Some page) (Some limit) items =
     \<lparr>statusCode = 200, headers = None,
      body = Stringify (Obj [(''message'', Str ''Country list''),
        (''data'', Obj [(''list'', Arr (map Obj (take l (drop ((p - 1) * l) items)))),
                        (''has_next'', Bool (int p < \<lceil>(of_nat (length items) :: rat) / of_nat l\<rceil>)),
                        (''has_prev'', Bool (1 < p)),
                        (''page'', Num (parseInt page)),
                        (''pages'', Num (Fin (of_int \<lceil>(of_nat (length items) :: rat) / of_nat l\<rceil>))),
                        (''per_page'', Num (parseInt limit)),
                        (''total'', Num (Fin (of_nat (length items))))])])\<rparr>"
    unfolding getAllCountriesPaginated_def Let_def option.case page limit w pg nxt has_prev
    by (simp only:)
  have particular: "length items = 25 \<and> p = 2 \<and> l = 10 \<longrightarrow>
        length (take l (drop ((p - 1) * l) items)) = 10
        \<and> int p < \<lceil>(of_nat (length items) :: rat) / of_nat l\<rceil>
        \<and> 1 < p
        \<and> \<lceil>(of_nat (length items) :: rat) / of_nat l\<rceil> = 3"
  proof -
    have "\<lceil>(5 :: rat) / 2\<rceil> = 3"
      by (rule ceiling_unique) simp_all
    then show ?thesis by simp
  qed
  from envelope particular show ?thesis by simp
qed

text \<open>The envelope of page 2 of 25 items, ten to a page.\<close>

theorem paginated_envelope_witness:
  "parseInt (utf16 ''2'') = round_double (of_nat 2) \<and> (0::nat) < 2
   \<and> parseInt (utf16 ''10'') = round_double (of_nat 10) \<and> (0::nat) < 10
   \<and> is_finite (parseInt (utf16 ''10''))
   \<and> length (numbered_items 25) < 2 ^ 32
   \<and> getAllCountriesPaginated (Some (utf16 ''2'')) (Some (utf16 ''10'')) (numbered_items 25) =
     \<lparr>statusCode = 200, headers = None,
      body = Stringify (Obj [(''message'', Str ''Country list''),
        (''data'', Obj [(''list'', Arr (map Obj (take 10 (drop 10 (numbered_items 25))))),
                        (''has_next'', Bool True),
                        (''has_prev'', Bool True),
                        (''page'', Num (Fin 2)),
                        (''pages'', Num (Fin 3)),
                        (''per_page'', Num (Fin 10)),
                        (''total'', Num (Fin 25))])])\<rparr>
   \<and> length (take 10 (drop 10 (numbered_items 25))) = 10"
proof -
  have two: "round_double (of_nat 2) = Fin 2" and ten: "round_double (of_nat 10) = Fin 10"
    using round_double_nat [of 2] round_double_nat [of 10] by simp_all
  have page: "parseInt (utf16 ''2'') = round_double (of_nat 2)"
    by (simp only: read_two two)
  have limit: "parseInt (utf16 ''10'') = round_double (of_nat 10)"
    by (simp only: read_ten ten)
  have p: "(0::nat) < 2" and l: "(0::nat) < 10"
    by simp_all
  have finite: "is_finite (parseInt (utf16 ''10''))"
    by (simp add: read_ten)
  have len: "length (numbered_items 25) = 25"
    by (simp add: numbered_items_def)
  then have small: "length (numbered_items 25) < 2 ^ 32"
    by simp
  from paginated_envelope [OF page p limit l finite small] len
  have envelope: "getAllCountriesPaginated (Some (utf16 ''2'')) (Some (utf16 ''10'')) (numbered_items 25) =
     \<lparr>statusCode = 200, headers = None,
      body = Stringify (Obj [(''message'', Str ''Country list''),
        (''data'', Obj [(''list'', Arr (map Obj (take 10 (drop 10 (numbered_items 25))))),
                        (''has_next'', Bool True),
                        (''has_prev'', Bool True),
                        (''page'', Num (Fin 2)),
                        (''pages'', Num (Fin 3)),
                        (''per_page'', Num (Fin 10)),
                        (''total'', Num (Fin 25))])])\<rparr>"
    and ten_items: "length (take 10 (drop 10 (numbered_items 25))) = 10"
    by (simp_all add: read_two read_ten)
  show ?thesis
    by (rule conjI [OF page conjI [OF p conjI [OF limit conjI [OF l conjI [OF finite
          conjI [OF small conjI [OF envelope ten_items]]]]]]])
qed

section \<open>C8: page and limit that are not numbers\<close>

text \<open>
  Claim C8 as stated, a 400 for a \<^verbatim>\<open>page\<close> or \<^verbatim>\<open>limit\<close> that is not a positive integer,
  fails: \<^verbatim>\<open>getAllCountriesPaginated\<close> validates neither. For \<^verbatim>\<open>page=abc\<close> it answers 200
  with an empty list and the page \<open>NaN\<close>.
\<close>

theorem getAllCountriesPaginated_page_abc_is_200:
  "getAllCountriesPaginated (Some (utf16 ''abc'')) (Some (utf16 ''10'')) [india, nepal] =
     \<lparr>statusCode = 200, headers = None,
      body = Stringify (Obj [(''message'', Str ''Country list''),
        (''data'', Obj [(''list'', Arr []), (''has_next'', Bool False), (''has_prev'', Bool False),
                        (''page'', Num NaN), (''pages'', Num (Fin 1)),
                        (''per_page'', Num (Fin 10)), (''total'', Num (Fin 2))])])\<rparr>
   \<and> statusCode (getAllCountriesPaginated (Some (utf16 ''abc'')) (Some (utf16 ''10'')) [india, nepal]) \<noteq> 400"
proof -
  have skip: "js_mul (js_sub NaN (Fin 1)) (Fin 10) = NaN"
    by (simp add: js_mul_def js_sub_def js_add_def)
  have fin: "js_add NaN (Fin 10) = NaN"
    by (simp add: js_add_def)
  have window: "js_slice [india, nepal] NaN NaN = []"
    by (simp add: js_slice_def relative_index_def)
  have "js_ceil (js_div (Fin (of_nat 2)) (round_double (of_nat 10)))
      = Fin (of_int \<lceil>(of_nat 2 :: rat) / of_nat 10\<rceil>)"
    using round_double_nat [of 10] by (intro pages) simp_all
  moreover have "\<lceil>(1 :: rat) / 5\<rceil> = 1"
    by (rule ceiling_unique) simp_all
  moreover have "round_double (of_nat 10) = Fin 10"
    using round_double_nat [of 10] by simp
  ultimately have pages: "js_ceil (js_div (Fin 2) (Fin 10)) = Fin 1"
    by simp
  have nxt: "js_lt NaN (Fin 1) = False" and prv: "js_gt NaN (Fin 1) = False"
    by (simp_all add: js_lt_def js_gt_def)
  have envelope: "getAllCountriesPaginated (Some (utf16 ''abc'')) (Some (utf16 ''10'')) [india, nepal] =
     \<lparr>statusCode = 200, headers = None,
      body = Stringify (Obj [(''message'', Str ''Country list''),
        (''data'', Obj [(''list'', Arr []), (''has_next'', Bool False), (''has_prev'', Bool False),
                        (''page'', Num NaN), (''pages'', Num (Fin 1)),
                        (''per_page'', Num (Fin 10)), (''total'', Num (Fin 2))])])\<rparr>"
    unfolding getAllCountriesPaginated_def Let_def option.case read_abc read_ten skip fin window
    by (simp add: pages nxt prv)
  then show ?thesis by simp
qed

text \<open>
  Claim C8, amended: \<^verbatim>\<open>getAllCountriesPaginated\<close> rejects no value of \<^verbatim>\<open>page\<close> or
  \<^verbatim>\<open>limit\<close>. Whatever the two parameters are, present or not, it answers 200 once the
  scan has returned; and when \<^verbatim>\<open>parseInt\<close> reads \<open>NaN\<close> from either of them, the
  envelope carries an empty list and \<open>has_next\<close> false, with \<open>has_prev\<close>, \<open>page\<close>, \<open>pages\<close>
  and \<open>per_page\<close> as the coerced values give them.
\<close>

theorem paginated_never_rejects:
  "statusCode (getAllCountriesPaginated page_param limit_param items) = 200
   \<and> (parseInt page = NaN \<or> parseInt limit = NaN \<longrightarrow>
        getAllCountriesPaginated (Some page) (Some limit) items =
          \<lparr>statusCode = 200, headers = None,
           body = Stringify (Obj [(''message'', Str ''Country list''),
             (''data'', Obj [(''list'', Arr []),
                             (''has_next'', Bool False),
                             (''has_prev'', Bool (js_gt (parseInt page) (Fin 1))),
                             (''page'', Num (parseInt page)),
                             (''pages'', Num (js_ceil (js_div (Fin (of_nat (length items))) (parseInt limit)))),
                             (''per_page'', Num (parseInt limit)),
                             (''total'', Num (Fin (of_nat (length items))))])])\<rparr>)"
proof (intro conjI impI)
  show "statusCode (getAllCountriesPaginated page_param limit_param items) = 200"
    by (simp add: getAllCountriesPaginated_def Let_def)
next
  assume nan: "parseInt page = NaN \<or> parseInt limit = NaN"
  have skip: "js_mul (js_sub (parseInt page) (Fin 1)) (parseInt limit) = NaN"
    using nan by (auto simp: js_mul_def js_sub_def js_add_def)
  have fin: "js_add NaN (parseInt limit) = NaN"
    by (simp add: js_add_def)
  have window: "js_slice items NaN NaN = []"
    by (simp add: js_slice_def relative_index_def)
  have nxt: "js_lt (parseInt page) (js_ceil (js_div (Fin (of_nat (length items))) (parseInt limit))) = False"
    using nan by (auto simp: js_lt_def js_div_def)
  show "getAllCountriesPaginated (Some page) (Some limit) items =
          \<lparr>statusCode = 200, headers = None,
           body = Stringify (Obj [(''message'', Str ''Country list''),
             (''data'', Obj [(''list'', Arr []),
                             (''has_next'', Bool False),
                             (''has_prev'', Bool (js_gt (parseInt page) (Fin 1))),
                             (''page'', Num (parseInt page)),
                             (''pages'', Num (js_ceil (js_div (Fin (of_nat (length items))) (parseInt limit)))),
                             (''per_page'', Num (parseInt limit)),
                             (''total'', Num (Fin (of_nat (length items))))])])\<rparr>"
    unfolding getAllCountriesPaginated_def Let_def option.case skip fin window nxt
    by simp
qed

text \<open>The amended claim at \<^verbatim>\<open>page=abc\<close>.\<close>

theorem paginated_never_rejects_witness:
  "parseInt (utf16 ''abc'') = NaN
   \<and> statusCode (getAllCountriesPaginated (Some (utf16 ''abc'')) (Some (utf16 ''10'')) [india, nepal]) = 200
   \<and> getAllCountriesPaginated (Some (utf16 ''abc'')) (Some (utf16 ''10'')) [india, nepal] =
          \<lparr>statusCode = 200, headers = None,
           body = Stringify (Obj [(''message'', Str ''Country list''),
             (''data'', Obj [(''list'', Arr []),
                             (''has_next'', Bool False),
                             (''has_prev'', Bool (js_gt (parseInt (utf16 ''abc'')) (Fin 1))),
                             (''page'', Num (parseInt (utf16 ''abc''))),
                             (''pages'', Num (js_ceil (js_div (Fin (of_nat (length [india, nepal])))
                                                (parseInt (utf16 ''10''))))),
                             (''per_page'', Num (parseInt (utf16 ''10''))),
                             (''total'', Num (Fin (of_nat (length [india, nepal]))))])])\<rparr>"
proof -
  have nan: "parseInt (utf16 ''abc'') = NaN"
    by (rule read_abc)
  from paginated_never_rejects [of "Some (utf16 ''abc'')" "Some (utf16 ''10'')" "[india, nepal]"
      "utf16 ''abc''" "utf16 ''10''"] nan
  have status: "statusCode (getAllCountriesPaginated (Some (utf16 ''abc'')) (Some (utf16 ''10'')) [india, nepal]) = 200"
    and envelope: "getAllCountriesPaginated (Some (utf16 ''abc'')) (Some (utf16 ''10'')) [india, nepal] =
          \<lparr>statusCode = 200, headers = None,
           body = Stringify (Obj [(''message'', Str ''Country list''),
             (''data'', Obj [(''list'', Arr []),
                             (''has_next'', Bool False),
                             (''has_prev'', Bool (js_gt (parseInt (utf16 ''abc'')) (Fin 1))),
                             (''page'', Num (parseInt (utf16 ''abc''))),
                             (''pages'', Num (js_ceil (js_div (Fin (of_nat (length [india, nepal])))
                                                (parseInt (utf16 ''10''))))),
                             (''per_page'', Num (parseInt (utf16 ''10''))),
                             (''total'', Num (Fin (of_nat (length [india, nepal]))))])])\<rparr>"
    by blast+
  show ?thesis
    by (rule conjI [OF nan conjI [OF status envelope]])
qed

section \<open>C9: the relation is directed\<close>

text \<open>
  Claim C9: for distinct stored countries \<open>a\<close> and \<open>b\<close>, a successful
  \<^verbatim>\<open>addNeighbors(a, [b])\<close> appends the pair \<open>(a, b)\<close> to the relation store and nothing
  else. The pair \<open>(b, a)\<close> is looked up as before, the relation query of \<open>b\<close> and the
  answer of \<^verbatim>\<open>getCountryNeighbors\<close> for \<open>b\<close> are as before, and \<open>a\<close> is not among the
  neighbours of \<open>b\<close> unless the pair \<open>(b, a)\<close> was stored already. No call of
  \<^verbatim>\<open>addNeighbors\<close> on \<open>a\<close>, whatever ids it is given, changes the relation query of \<open>b\<close>.
\<close>

theorem addNeighbors_directed:
  assumes distinct: "a \<noteq> b"
    and a_exists: "fetchCountryById (Str a) s = Some ca"
    and b_exists: "fetchCountryById (Str b) s = Some cb"
    and success: "statusCode (fst (addNeighbors a (Inr [\<lparr>neighborId = b\<rparr>]) s)) = 200"
  shows "snd (addNeighbors a (Inr [\<lparr>neighborId = b\<rparr>]) s)
       = s\<lparr>neighbors := neighbors s @ [[(''countryID'', Str a), (''neighborId'', Str b)]]\<rparr>
     \<and> fetchNeighbor b a (snd (addNeighbors a (Inr [\<lparr>neighborId = b\<rparr>]) s)) = fetchNeighbor b a s
     \<and> fetchNeighborsByCountryId b (snd (addNeighbors a (Inr [\<lparr>neighborId = b\<rparr>]) s))
         = fetchNeighborsByCountryId b s
     \<and> getCountryNeighbors b (snd (addNeighbors a (Inr [\<lparr>neighborId = b\<rparr>]) s))
         = getCountryNeighbors b s
     \<and> (fetchNeighbor b a s = None \<longrightarrow>
          Str a \<notin> set (fetchNeighborsByCountryId b
                         (snd (addNeighbors a (Inr [\<lparr>neighborId = b\<rparr>]) s))))
     \<and> (\<forall>data. fetchNeighborsByCountryId b (snd (addNeighbors a (Inr data) s))
                 = fetchNeighborsByCountryId b s)"
proof -
  let ?s1 = "snd (addNeighbors a (Inr [\<lparr>neighborId = b\<rparr>]) s)"
  obtain errors added s' where
    loop: "neighbor_loop a (fetchAllCountryIds s) [\<lparr>neighborId = b\<rparr>] [] [] s = (errors, added, s')"
    by (cases "neighbor_loop a (fetchAllCountryIds s) [\<lparr>neighborId = b\<rparr>] [] [] s") auto
  note resp = addNeighbors_unfold [OF a_exists loop]
  from resp success have "added \<noteq> []"
    by (auto split: if_splits)
  with loop have ok: "Str b \<in> set (fetchAllCountryIds s)" "fetchNeighbor a b s = None"
    by (auto split: if_splits)
  with loop have s': "s' = addNeighbor a b s"
    by simp
  from resp have s1: "?s1 = addNeighbor a b s"
    by (simp add: s')
  have store: "?s1 = s\<lparr>neighbors := neighbors s @ [[(''countryID'', Str a), (''neighborId'', Str b)]]\<rparr>"
    unfolding s1 by (rule addNeighbor_absent [OF ok(2)])
  have query: "fetchNeighborsByCountryId b ?s1 = fetchNeighborsByCountryId b s"
    unfolding s1 by (rule query_addNeighbor_other [OF distinct])
  have rev: "fetchNeighbor b a ?s1 = fetchNeighbor b a s"
    unfolding s1 fetchNeighbor_def addNeighbor_def
    using distinct get_put_other [of "(Str b, Str a)" neighbor_key
        "[(''countryID'', Str a), (''neighborId'', Str b)]" "neighbors s"]
    by simp
  have handler: "getCountryNeighbors b ?s1 = getCountryNeighbors b s"
    by (rule getCountryNeighbors_cong) (simp_all add: s1 query [unfolded s1])
  have absent: "fetchNeighbor b a s = None \<longrightarrow> Str a \<notin> set (fetchNeighborsByCountryId b ?s1)"
    using fetchNeighbor_member [of b a s] query by simp
  have every: "\<forall>data. fetchNeighborsByCountryId b (snd (addNeighbors a (Inr data) s))
      = fetchNeighborsByCountryId b s"
    by (simp add: addNeighbors_query_other [OF distinct])
  from store rev query handler absent every show ?thesis by blast
qed

text \<open>India adds Nepal: Nepal's neighbours stay empty.\<close>

theorem addNeighbors_directed_witness:
  "''id-india'' \<noteq> ''id-nepal''
   \<and> fetchCountryById (Str ''id-india'') example_db = Some india
   \<and> fetchCountryById (Str ''id-nepal'') example_db = Some nepal
   \<and> statusCode (fst (addNeighbors ''id-india'' (Inr [\<lparr>neighborId = ''id-nepal''\<rparr>]) example_db)) = 200
   \<and> snd (addNeighbors ''id-india'' (Inr [\<lparr>neighborId = ''id-nepal''\<rparr>]) example_db)
       = example_db\<lparr>neighbors := neighbors example_db
           @ [[(''countryID'', Str ''id-india''), (''neighborId'', Str ''id-nepal'')]]\<rparr>
   \<and> fetchNeighborsByCountryId ''id-nepal''
        (snd (addNeighbors ''id-india'' (Inr [\<lparr>neighborId = ''id-nepal''\<rparr>]) example_db)) = []
   \<and> Str ''id-india'' \<notin> set (fetchNeighborsByCountryId ''id-nepal''
        (snd (addNeighbors ''id-india'' (Inr [\<lparr>neighborId = ''id-nepal''\<rparr>]) example_db)))"
proof -
  have distinct: "''id-india'' \<noteq> ''id-nepal''"
    by simp
  have india: "fetchCountryById (Str ''id-india'') example_db = Some india"
    by (simp add: ex_defs)
  have nepal: "fetchCountryById (Str ''id-nepal'') example_db = Some nepal"
    by (simp add: ex_defs)
  have success:
    "statusCode (fst (addNeighbors ''id-india'' (Inr [\<lparr>neighborId = ''id-nepal''\<rparr>]) example_db)) = 200"
    by (simp add: addNeighbors_def fetchAllCountryIds_def fetchNeighbor_def ex_defs)
  have before: "fetchNeighborsByCountryId ''id-nepal'' example_db = []"
    by (simp add: fetchNeighborsByCountryId_def ex_defs)
  note directed = addNeighbors_directed [OF distinct india nepal success]
  from directed have same: "fetchNeighborsByCountryId ''id-nepal''
        (snd (addNeighbors ''id-india'' (Inr [\<lparr>neighborId = ''id-nepal''\<rparr>]) example_db))
      = fetchNeighborsByCountryId ''id-nepal'' example_db"
    by blast
  have store: "snd (addNeighbors ''id-india'' (Inr [\<lparr>neighborId = ''id-nepal''\<rparr>]) example_db)
       = example_db\<lparr>neighbors := neighbors example_db
           @ [[(''countryID'', Str ''id-india''), (''neighborId'', Str ''id-nepal'')]]\<rparr>"
    by (rule directed [THEN conjunct1])
  have query: "fetchNeighborsByCountryId ''id-nepal''
        (snd (addNeighbors ''id-india'' (Inr [\<lparr>neighborId = ''id-nepal''\<rparr>]) example_db)) = []"
    by (simp only: same before)
  have absent: "Str ''id-india'' \<notin> set (fetchNeighborsByCountryId ''id-nepal''
        (snd (addNeighbors ''id-india'' (Inr [\<lparr>neighborId = ''id-nepal''\<rparr>]) example_db)))"
    by (simp only: query list.set empty_iff not_False_eq_True)
  show ?thesis
    by (rule conjI [OF distinct conjI [OF india conjI [OF nepal conjI [OF success
          conjI [OF store conjI [OF query absent]]]]]])
qed

section \<open>C10: one outcome for each item\<close>

text \<open>
  Claim C10: for every \<^verbatim>\<open>addNeighbors\<close> call on a stored country, each item of the input
  has exactly one outcome: its id is in the added list, or one message about it is in the
  errors list. \<open>outs\<close> gives the outcome of each item in input order, \<open>None\<close> for an
  addition and the message for an error; the added list is the ids of the items with
  outcome \<open>None\<close>, the errors list is the messages, and the two lengths sum to the number
  of items. Both lists are the ones the response carries.
\<close>

theorem addNeighbors_one_outcome_per_item:
  assumes "fetchCountryById (Str c) s = Some country"
  shows "\<exists>errors added outs.
     fst (addNeighbors c (Inr data) s) =
       (if added = []
        then \<lparr>statusCode = 400, headers = Some json_headers,
               body = Stringify (Obj [(''message'', Str ''Failed to add neighbors''),
                 (''data'', Obj [(''neighbors'', Arr (map Str added)),
                                 (''errors'', Arr (map Str errors))])])\<rparr>
        else \<lparr>statusCode = 200, headers = Some json_headers,
               body = Stringify (Obj [(''message'', Str ''Neighbors added successfully''),
                 (''data'', Obj [(''neighbors'', Arr (map Str added))]),
                 (''errors'', Arr (map Str errors))])\<rparr>)
     \<and> length added + length errors = length data
     \<and> length outs = length data
     \<and> added = map (\<lambda>p. neighborId (fst p)) (filter (\<lambda>p. snd p = None) (zip data outs))
     \<and> errors = map the (filter (\<lambda>r. r \<noteq> None) outs)
     \<and> list_all2 (\<lambda>obj r. r = None
            \<or> r = Some (''Invalid neighbor country ID: '' @ neighborId obj)
            \<or> r = Some (''Neighbor with ID '' @ neighborId obj @ '' already exists for this country''))
          data outs"
proof -
  obtain errors added s' where
    loop: "neighbor_loop c (fetchAllCountryIds s) data [] [] s = (errors, added, s')"
    by (cases "neighbor_loop c (fetchAllCountryIds s) data [] [] s") auto
  from loop_outcomes [OF loop] obtain outs where outs: "length outs = length data"
    "added = map (\<lambda>p. neighborId (fst p)) (filter (\<lambda>p. snd p = None) (zip data outs))"
    "errors = map the (filter (\<lambda>r. r \<noteq> None) outs)"
    "list_all2 (\<lambda>obj r. r = None
            \<or> r = Some (''Invalid neighbor country ID: '' @ neighborId obj)
            \<or> r = Some (''Neighbor with ID '' @ neighborId obj @ '' already exists for this country''))
          data outs"
    by auto
  from loop_lengths [OF loop] have len: "length added + length errors = length data"
    by simp
  have resp: "fst (addNeighbors c (Inr data) s) =
       (if added = []
        then \<lparr>statusCode = 400, headers = Some json_headers,
               body = Stringify (Obj [(''message'', Str ''Failed to add neighbors''),
                 (''data'', Obj [(''neighbors'', Arr (map Str added)),
                                 (''errors'', Arr (map Str errors))])])\<rparr>
        else \<lparr>statusCode = 200, headers = Some json_headers,
               body = Stringify (Obj [(''message'', Str ''Neighbors added successfully''),
                 (''data'', Obj [(''neighbors'', Arr (map Str added))]),
                 (''errors'', Arr (map Str errors))])\<rparr>)"
    using addNeighbors_unfold [OF assms loop] by simp
  from resp len outs show ?thesis by blast
qed

text \<open>Three items at India: Nepal, an unknown id, and Nepal again.\<close>

theorem addNeighbors_one_outcome_per_item_witness:
  "fetchCountryById (Str ''id-india'') example_db = Some india
   \<and> (\<exists>errors added outs.
     fst (addNeighbors ''id-india''
            (Inr [\<lparr>neighborId = ''id-nepal''\<rparr>, \<lparr>neighborId = ''id-atlantis''\<rparr>,
                  \<lparr>neighborId = ''id-nepal''\<rparr>]) example_db) =
       (if added = []
        then \<lparr>statusCode = 400, headers = Some json_headers,
               body = Stringify (Obj [(''message'', Str ''Failed to add neighbors''),
                 (''data'', Obj [(''neighbors'', Arr (map Str added)),
                                 (''errors'', Arr (map Str errors))])])\<rparr>
        else \<lparr>statusCode = 200, headers = Some json_headers,
               body = Stringify (Obj [(''message'', Str ''Neighbors added successfully''),
                 (''data'', Obj [(''neighbors'', Arr (map Str added))]),
                 (''errors'', Arr (map Str errors))])\<rparr>)
     \<and> length added + length errors
         = length [\<lparr>neighborId = ''id-nepal''\<rparr>, \<lparr>neighborId = ''id-atlantis''\<rparr>,
                   \<lparr>neighborId = ''id-nepal''\<rparr>]
     \<and> length outs
         = length [\<lparr>neighborId = ''id-nepal''\<rparr>, \<lparr>neighborId = ''id-atlantis''\<rparr>,
                   \<lparr>neighborId = ''id-nepal''\<rparr>]
     \<and> added = map (\<lambda>p. neighborId (fst p)) (filter (\<lambda>p. snd p = None)
         (zip [\<lparr>neighborId = ''id-nepal''\<rparr>, \<lparr>neighborId = ''id-atlantis''\<rparr>,
               \<lparr>neighborId = ''id-nepal''\<rparr>] outs))
     \<and> errors = map the (filter (\<lambda>r. r \<noteq> None) outs)
     \<and> list_all2 (\<lambda>obj r. r = None
            \<or> r = Some (''Invalid neighbor country ID: '' @ neighborId obj)
            \<or> r = Some (''Neighbor with ID '' @ neighborId obj @ '' already exists for this country''))
          [\<lparr>neighborId = ''id-nepal''\<rparr>, \<lparr>neighborId = ''id-atlantis''\<rparr>,
           \<lparr>neighborId = ''id-nepal''\<rparr>] outs)"
proof -
  have country: "fetchCountryById (Str ''id-india'') example_db = Some india"
    by (simp add: ex_defs)
  show ?thesis
    by (rule conjI [OF country addNeighbors_one_outcome_per_item [OF country]])
qed

end
